theory Spec2Isabelle
  imports Complex_Main
begin

section \<open>Python values and exceptions\<close>

text \<open>
  The exceptions the pipeline can raise. \<open>HTTPStatusError\<close> carries the status code of
  the response (httpx raises it from \<open>raise_for_status\<close>), \<open>TransportError\<close> stands
  for every other failure of an HTTP attempt (connection errors, timeouts).
  \<open>IllTyped\<close> is not a Python exception: a persisted document may hold a value outside
  the annotated type of a field, which Python would store unchecked and which the typed
  records below cannot represent.
\<close>

datatype error =
    ValueError string
  | KeyError string
  | TypeError string
  | HTTPStatusError int
  | TransportError string
  | JSONDecodeError
  | ParseError
  | AttributeError string
  | FileNotFoundError
  | IllTyped string

text \<open>
  A Python \<open>float\<close> is modelled by the rational number it denotes. The rounding of
  decimal literals to binary64 and the non-finite values are outside the model.
\<close>

type_synonym pyfloat = rat

subsection \<open>Characters, digits and \<open>str.split\<close>\<close>

definition is_digit :: "char \<Rightarrow> bool" where
  "is_digit c = (48 \<le> (of_char c :: nat) \<and> (of_char c :: nat) \<le> 57)"

definition digit_val :: "char \<Rightarrow> nat" where
  "digit_val c = (of_char c :: nat) - 48"

definition digit_char :: "nat \<Rightarrow> char" where
  "digit_char n = char_of (48 + n)"

definition is_space :: "char \<Rightarrow> bool" where
  "is_space c = ((of_char c :: nat) = 32 \<or> (9 \<le> (of_char c :: nat) \<and> (of_char c :: nat) \<le> 13))"

definition strip :: "string \<Rightarrow> string" where
  "strip s = rev (dropWhile is_space (rev (dropWhile is_space s)))"

text \<open>\<open>s.split(",")\<close>: always at least one field, empty fields are kept.\<close>

fun split_comma :: "string \<Rightarrow> string list" where
  "split_comma [] = [[]]"
| "split_comma (c # cs) =
     (if c = CHR '','' then [] # split_comma cs
      else (case split_comma cs of
              [] \<Rightarrow> [[c]]
            | w # ws \<Rightarrow> (c # w) # ws))"

subsection \<open>\<open>int(str)\<close> and \<open>float(str)\<close>\<close>

text \<open>
  A run of decimal digits in which single underscores may separate digits, as Python's
  numeric literals in strings allow. \<open>digit_run acc cs\<close> continues after a digit.
\<close>

fun digit_run :: "nat \<Rightarrow> string \<Rightarrow> nat option" where
  "digit_run acc [] = Some acc"
| "digit_run acc [c] = (if is_digit c then Some (10 * acc + digit_val c) else None)"
| "digit_run acc (c # d # ds) =
     (if is_digit c then digit_run (10 * acc + digit_val c) (d # ds)
      else if c = CHR ''_'' \<and> is_digit d then digit_run (10 * acc + digit_val d) ds
      else None)"

definition dec_digits :: "string \<Rightarrow> nat option" where
  "dec_digits s =
     (case s of
        [] \<Rightarrow> None
      | c # cs \<Rightarrow> if is_digit c then digit_run (digit_val c) cs else None)"

definition signed_digits :: "string \<Rightarrow> int option" where
  "signed_digits s =
     (case s of
        [] \<Rightarrow> None
      | c # cs \<Rightarrow>
          if c = CHR ''-'' then map_option (\<lambda>n. - int n) (dec_digits cs)
          else if c = CHR ''+'' then map_option int (dec_digits cs)
          else map_option int (dec_digits s))"

definition py_int :: "string \<Rightarrow> error + int" where
  "py_int s =
     (case signed_digits (strip s) of
        None \<Rightarrow> Inl (ValueError ''invalid literal for int() with base 10'')
      | Some i \<Rightarrow> Inr i)"

text \<open>
  The mantissa of a float literal: digits, an optional point, digits; at least one digit
  on one side of the point.
\<close>

definition count_digits :: "string \<Rightarrow> nat" where
  "count_digits s = length (filter is_digit s)"

definition dec_mantissa :: "string \<Rightarrow> rat option" where
  "dec_mantissa m =
     (let ip = takeWhile (\<lambda>c. c \<noteq> CHR ''.'') m;
          rest = dropWhile (\<lambda>c. c \<noteq> CHR ''.'') m
      in if rest = [] then map_option of_nat (dec_digits ip)
         else (let fp = tl rest
               in if ip = [] \<and> fp = [] then None
                  else (case (if ip = [] then Some 0 else dec_digits ip) of
                          None \<Rightarrow> None
                        | Some i \<Rightarrow>
                            (case (if fp = [] then Some 0 else dec_digits fp) of
                               None \<Rightarrow> None
                             | Some f \<Rightarrow> Some (of_nat i + of_nat f / 10 ^ count_digits fp)))))"

definition is_exp_mark :: "char \<Rightarrow> bool" where
  "is_exp_mark c = (c = CHR ''e'' \<or> c = CHR ''E'')"

definition unsigned_float :: "string \<Rightarrow> rat option" where
  "unsigned_float u =
     (let m = takeWhile (\<lambda>c. \<not> is_exp_mark c) u;
          rest = dropWhile (\<lambda>c. \<not> is_exp_mark c) u
      in case dec_mantissa m of
           None \<Rightarrow> None
         | Some q \<Rightarrow>
             if rest = [] then Some q
             else (case signed_digits (tl rest) of
                     None \<Rightarrow> None
                   | Some e \<Rightarrow> Some (if 0 \<le> e then q * 10 ^ nat e else q / 10 ^ nat (- e))))"

text \<open>
  \<open>float(str)\<close> on decimal literals. Python also accepts the literals \<open>inf\<close>,
  \<open>infinity\<close> and \<open>nan\<close>; they denote no rational and are rejected here.
\<close>

definition py_float :: "string \<Rightarrow> error + pyfloat" where
  "py_float s =
     (let t = strip s;
          r = (case t of
                 [] \<Rightarrow> None
               | c # cs \<Rightarrow>
                   if c = CHR ''-'' then map_option uminus (unsigned_float cs)
                   else if c = CHR ''+'' then unsigned_float cs
                   else unsigned_float t)
      in case r of
           None \<Rightarrow> Inl (ValueError ''could not convert string to float'')
         | Some q \<Rightarrow> Inr q)"

section \<open>Domain models (models.py)\<close>

subsection \<open>Timestamps\<close>

text \<open>
  Every \<open>datetime\<close> the pipeline builds is timezone-aware in UTC
  (\<open>datetime.fromtimestamp(seconds, tz=timezone.utc)\<close>), so the record holds the civil
  fields only.
\<close>

record datetime =
  year :: nat
  month :: nat
  day :: nat
  hour :: nat
  minute :: nat
  second :: nat
  microsecond :: nat

definition round_half_even :: "rat \<Rightarrow> int" where
  "round_half_even q =
     (let f = \<lfloor>q\<rfloor>; d = q - of_int f
      in if d < 1 / 2 then f
         else if 1 / 2 < d then f + 1
         else if even f then f else f + 1)"

text \<open>The proleptic Gregorian date of a day count relative to 1970-01-01.\<close>

definition civil_from_days :: "int \<Rightarrow> int \<times> int \<times> int" where
  "civil_from_days z0 =
     (let z = z0 + 719468;
          era = z div 146097;
          doe = z mod 146097;
          yoe = (doe - doe div 1460 + doe div 36524 - doe div 146096) div 365;
          y = yoe + era * 400;
          doy = doe - (365 * yoe + yoe div 4 - yoe div 100);
          mp = (5 * doy + 2) div 153;
          d = doy - (153 * mp + 2) div 5 + 1;
          m = (if mp < 10 then mp + 3 else mp - 9)
      in (if m \<le> 2 then y + 1 else y, m, d))"

definition parse_timestamp :: "pyfloat \<Rightarrow> error + datetime" where
  "parse_timestamp seconds =
     (let total = round_half_even (seconds * 1000000);
          secs = total div 1000000;
          us = total mod 1000000;
          days = secs div 86400;
          r = secs mod 86400;
          (y, m, d) = civil_from_days days
      in if y < 1 \<or> 9999 < y then Inl (ValueError ''year is out of range'')
         else Inr \<lparr>year = nat y, month = nat m, day = nat d,
                   hour = nat (r div 3600), minute = nat ((r mod 3600) div 60),
                   second = nat (r mod 60), microsecond = nat us\<rparr>)"

definition safe_int :: "string \<Rightarrow> int option" where
  "safe_int v = (case py_int v of Inl e \<Rightarrow> None | Inr i \<Rightarrow> Some i)"

subsection \<open>Records\<close>

record VideoMetadata =
  aid :: int
  bvid :: string
  cid :: int
  title :: string
  keyword :: string
  duration :: "int option"
  publish_time :: "datetime option"
  owner_name :: "string option"
  view_count :: "int option"
  danmaku_count :: "int option"
  like_count :: "int option"
  ranking_index :: "int option"

record DanmakuRecord =
  video_bvid :: string
  video_cid :: int
  content :: string
  appear_time :: pyfloat
  send_time :: datetime
  mode :: int
  font_size :: int
  font_color :: int
  author_hash :: "string option"
  weight :: "int option"
  pool :: "int option"

record VideoDanmakuBundle =
  video :: VideoMetadata
  danmaku :: "DanmakuRecord list"

subsection \<open>The comment record parser\<close>

text \<open>
  An XML node \<open><d p="...">text</d>\<close>: the attribute \<open>p\<close> (\<open>node.attrib.get("p")\<close>)
  and the text body (\<open>node.text\<close>), each of which may be absent.
\<close>

record xml_node =
  attrib_p :: "string option"
  node_text :: "string option"

definition p_attr :: "xml_node \<Rightarrow> string" where
  "p_attr node = (case attrib_p node of None \<Rightarrow> [] | Some p \<Rightarrow> p)"

definition from_xml_node :: "xml_node \<Rightarrow> string \<Rightarrow> int \<Rightarrow> error + DanmakuRecord" where
  "from_xml_node node bv ci =
     (let attrs = split_comma (p_attr node)
      in if length attrs < 7 then Inl (ValueError ''Unexpected danmaku payload'')
         else
           (case py_float (attrs ! 0) of Inl e \<Rightarrow> Inl e | Inr appear \<Rightarrow>
           (case py_int (attrs ! 1) of Inl e \<Rightarrow> Inl e | Inr md \<Rightarrow>
           (case py_int (attrs ! 2) of Inl e \<Rightarrow> Inl e | Inr fsize \<Rightarrow>
           (case py_int (attrs ! 3) of Inl e \<Rightarrow> Inl e | Inr fcolor \<Rightarrow>
           (case py_float (attrs ! 4) of Inl e \<Rightarrow> Inl e | Inr send_ts \<Rightarrow>
           (let ah = (if attrs ! 5 = [] then None else Some (attrs ! 5));
                pl = safe_int (attrs ! 6);
                wt = (if 7 < length attrs then safe_int (attrs ! 7) else None)
            in (case parse_timestamp send_ts of Inl e \<Rightarrow> Inl e | Inr st \<Rightarrow>
               Inr \<lparr>video_bvid = bv, video_cid = ci,
                    content = (case node_text node of None \<Rightarrow> [] | Some t \<Rightarrow> t),
                    appear_time = appear, send_time = st, mode = md,
                    font_size = fsize, font_color = fcolor,
                    author_hash = ah, weight = wt, pool = pl\<rparr>))))))))"

subsection \<open>ISO-8601 text of a timestamp\<close>

text \<open>
  \<open>datetime.isoformat()\<close> of a UTC-aware value: \<open>YYYY-MM-DDTHH:MM:SS+00:00\<close>, with
  \<open>.ffffff\<close> after the seconds when the microsecond is not zero.
\<close>

fun pad :: "nat \<Rightarrow> nat \<Rightarrow> string" where
  "pad 0 n = []"
| "pad (Suc w) n = pad w (n div 10) @ [digit_char (n mod 10)]"

definition isoformat :: "datetime \<Rightarrow> string" where
  "isoformat d =
     pad 4 (year d) @ ''-'' @ pad 2 (month d) @ ''-'' @ pad 2 (day d) @ ''T''
     @ pad 2 (hour d) @ '':'' @ pad 2 (minute d) @ '':'' @ pad 2 (second d)
     @ (if microsecond d = 0 then [] else ''.'' @ pad 6 (microsecond d))
     @ ''+00:00''"

definition is_leap :: "nat \<Rightarrow> bool" where
  "is_leap y = (y mod 4 = 0 \<and> (y mod 100 \<noteq> 0 \<or> y mod 400 = 0))"

definition days_in_month :: "nat \<Rightarrow> nat \<Rightarrow> nat" where
  "days_in_month y m =
     (if m = 2 then (if is_leap y then 29 else 28)
      else if m = 4 \<or> m = 6 \<or> m = 9 \<or> m = 11 then 30 else 31)"

text \<open>The values a \<open>datetime\<close> object can hold (its constructor rejects all others).\<close>

definition valid_datetime :: "datetime \<Rightarrow> bool" where
  "valid_datetime d =
     (1 \<le> year d \<and> year d \<le> 9999 \<and> 1 \<le> month d \<and> month d \<le> 12
      \<and> 1 \<le> day d \<and> day d \<le> days_in_month (year d) (month d)
      \<and> hour d < 24 \<and> minute d < 60 \<and> second d < 60 \<and> microsecond d < 1000000)"

definition digits_value :: "string \<Rightarrow> nat" where
  "digits_value t = foldl (\<lambda>a c. 10 * a + digit_val c) 0 t"

definition digits_at :: "nat \<Rightarrow> nat \<Rightarrow> string \<Rightarrow> nat option" where
  "digits_at i w s =
     (let t = take w (drop i s)
      in if length t = w \<and> list_all is_digit t then Some (digits_value t) else None)"

definition char_at :: "nat \<Rightarrow> string \<Rightarrow> string" where
  "char_at i s = take 1 (drop i s)"

text \<open>
  \<open>datetime.fromisoformat\<close> on the texts that \<open>isoformat\<close> writes for UTC values.
  Python accepts further ISO-8601 variants (other offsets, no offset); the pipeline never
  writes them and they are rejected here.
\<close>

definition fromisoformat :: "string \<Rightarrow> error + datetime" where
  "fromisoformat s =
     (let rest = drop 19 s;
          frac = (if rest = ''+00:00'' then Some 0
                  else if char_at 0 rest = ''.'' \<and> drop 7 rest = ''+00:00''
                       then digits_at 20 6 s
                  else None)
      in case (digits_at 0 4 s, digits_at 5 2 s, digits_at 8 2 s,
               digits_at 11 2 s, digits_at 14 2 s, digits_at 17 2 s, frac) of
           (Some y, Some mo, Some d, Some h, Some mi, Some se, Some us) \<Rightarrow>
             (let dt = \<lparr>year = y, month = mo, day = d, hour = h, minute = mi,
                        second = se, microsecond = us\<rparr>
              in if char_at 4 s = ''-'' \<and> char_at 7 s = ''-'' \<and> char_at 10 s = ''T''
                    \<and> char_at 13 s = '':'' \<and> char_at 16 s = '':'' \<and> valid_datetime dt
                 then Inr dt
                 else Inl (ValueError ''Invalid isoformat string''))
         | _ \<Rightarrow> Inl (ValueError ''Invalid isoformat string''))"

subsection \<open>JSON documents\<close>

text \<open>
  The values \<open>json.loads\<close> returns. A dictionary is an association list in insertion
  order; a lookup takes the first entry of a key.
\<close>

datatype json =
    JNull
  | JBool bool
  | JInt int
  | JFloat pyfloat
  | JStr string
  | JList "json list"
  | JDict "(string \<times> json) list"

fun truthy :: "json \<Rightarrow> bool" where
  "truthy JNull = False"
| "truthy (JBool b) = b"
| "truthy (JInt i) = (i \<noteq> 0)"
| "truthy (JFloat q) = (q \<noteq> 0)"
| "truthy (JStr s) = (s \<noteq> [])"
| "truthy (JList xs) = (xs \<noteq> [])"
| "truthy (JDict kvs) = (kvs \<noteq> [])"

text \<open>\<open>d[key]\<close>, \<open>d.get(key)\<close> and \<open>d.get(key, default)\<close>.\<close>

fun py_item :: "json \<Rightarrow> string \<Rightarrow> error + json" where
  "py_item (JDict kvs) k =
     (case map_of kvs k of None \<Rightarrow> Inl (KeyError k) | Some v \<Rightarrow> Inr v)"
| "py_item j k = Inl (TypeError ''indices must be integers'')"

fun py_get_default :: "json \<Rightarrow> string \<Rightarrow> json \<Rightarrow> error + json" where
  "py_get_default (JDict kvs) k dflt =
     (case map_of kvs k of None \<Rightarrow> Inr dflt | Some v \<Rightarrow> Inr v)"
| "py_get_default j k dflt = Inl (AttributeError ''get'')"

definition py_get :: "json \<Rightarrow> string \<Rightarrow> error + json" where
  "py_get j k = py_get_default j k JNull"

text \<open>Iteration (\<open>for item in value\<close>): a string yields its characters, a dictionary its keys.\<close>

fun py_iter :: "json \<Rightarrow> error + json list" where
  "py_iter (JList xs) = Inr xs"
| "py_iter (JStr s) = Inr (map (\<lambda>c. JStr [c]) s)"
| "py_iter (JDict kvs) = Inr (map (\<lambda>kv. JStr (fst kv)) kvs)"
| "py_iter j = Inl (TypeError ''object is not iterable'')"

text \<open>Sequencing of computations that may raise: the first exception wins.\<close>

definition and_then :: "error + 'a \<Rightarrow> ('a \<Rightarrow> error + 'b) \<Rightarrow> error + 'b" where
  "and_then m f = (case m of Inl e \<Rightarrow> Inl e | Inr x \<Rightarrow> f x)"

fun map_raising :: "('a \<Rightarrow> error + 'b) \<Rightarrow> 'a list \<Rightarrow> error + 'b list" where
  "map_raising f [] = Inr []"
| "map_raising f (x # xs) =
     and_then (f x) (\<lambda>y. and_then (map_raising f xs) (\<lambda>ys. Inr (y # ys)))"

text \<open>
  Reading a JSON value at the annotated type of a field. Python stores whatever the
  document holds; a value of another type has no counterpart in the typed records.
\<close>

fun as_int :: "string \<Rightarrow> json \<Rightarrow> error + int" where
  "as_int k (JInt i) = Inr i"
| "as_int k j = Inl (IllTyped k)"

fun as_str :: "string \<Rightarrow> json \<Rightarrow> error + string" where
  "as_str k (JStr s) = Inr s"
| "as_str k j = Inl (IllTyped k)"

fun as_float :: "string \<Rightarrow> json \<Rightarrow> error + pyfloat" where
  "as_float k (JFloat q) = Inr q"
| "as_float k (JInt i) = Inr (of_int i)"
| "as_float k j = Inl (IllTyped k)"

fun as_opt_int :: "string \<Rightarrow> json \<Rightarrow> error + int option" where
  "as_opt_int k JNull = Inr None"
| "as_opt_int k (JInt i) = Inr (Some i)"
| "as_opt_int k j = Inl (IllTyped k)"

fun as_opt_str :: "string \<Rightarrow> json \<Rightarrow> error + string option" where
  "as_opt_str k JNull = Inr None"
| "as_opt_str k (JStr s) = Inr (Some s)"
| "as_opt_str k j = Inl (IllTyped k)"

definition opt_int_json :: "int option \<Rightarrow> json" where
  "opt_int_json v = (case v of None \<Rightarrow> JNull | Some i \<Rightarrow> JInt i)"

definition opt_str_json :: "string option \<Rightarrow> json" where
  "opt_str_json v = (case v of None \<Rightarrow> JNull | Some s \<Rightarrow> JStr s)"

subsection \<open>\<open>VideoDanmakuBundle.to_dict\<close> and \<open>from_dict\<close>\<close>

text \<open>A \<open>datetime\<close> object is always true, so \<open>publish_time\<close> is tested for \<open>None\<close> only.\<close>

definition to_dict :: "VideoDanmakuBundle \<Rightarrow> json" where
  "to_dict self =
     JDict
       [(''video'',
         JDict
           [(''aid'', JInt (aid (video self))),
            (''bvid'', JStr (bvid (video self))),
            (''cid'', JInt (cid (video self))),
            (''title'', JStr (title (video self))),
            (''keyword'', JStr (keyword (video self))),
            (''duration'', opt_int_json (duration (video self))),
            (''publish_time'',
               (case publish_time (video self) of
                  None \<Rightarrow> JNull
                | Some t \<Rightarrow> JStr (isoformat t))),
            (''owner_name'', opt_str_json (owner_name (video self))),
            (''view_count'', opt_int_json (view_count (video self))),
            (''danmaku_count'', opt_int_json (danmaku_count (video self))),
            (''like_count'', opt_int_json (like_count (video self))),
            (''ranking_index'', opt_int_json (ranking_index (video self)))]),
        (''danmaku'',
         JList
           (map (\<lambda>record.
                   JDict
                     [(''video_bvid'', JStr (video_bvid record)),
                      (''video_cid'', JInt (video_cid record)),
                      (''content'', JStr (content record)),
                      (''appear_time'', JFloat (appear_time record)),
                      (''send_time'', JStr (isoformat (send_time record))),
                      (''mode'', JInt (mode record)),
                      (''font_size'', JInt (font_size record)),
                      (''font_color'', JInt (font_color record)),
                      (''author_hash'', opt_str_json (author_hash record)),
                      (''weight'', opt_int_json (weight record)),
                      (''pool'', opt_int_json (pool record))])
              (danmaku self)))]"

text \<open>\<open>datetime.fromisoformat(v)\<close>: the argument must be a string.\<close>

fun fromisoformat_value :: "json \<Rightarrow> error + datetime" where
  "fromisoformat_value (JStr s) = fromisoformat s"
| "fromisoformat_value j = Inl (TypeError ''fromisoformat: argument must be str'')"

definition metadata_from_dict :: "json \<Rightarrow> error + VideoMetadata" where
  "metadata_from_dict v =
     and_then (and_then (py_item v ''aid'') (as_int ''aid'')) (\<lambda>a.
     and_then (and_then (py_item v ''bvid'') (as_str ''bvid'')) (\<lambda>b.
     and_then (and_then (py_item v ''cid'') (as_int ''cid'')) (\<lambda>c.
     and_then (and_then (py_item v ''title'') (as_str ''title'')) (\<lambda>t.
     and_then (and_then (py_item v ''keyword'') (as_str ''keyword'')) (\<lambda>k.
     and_then (and_then (py_get v ''duration'') (as_opt_int ''duration'')) (\<lambda>du.
     and_then (and_then (py_get v ''publish_time'') (\<lambda>p.
                 if truthy p
                 then and_then (and_then (py_item v ''publish_time'') fromisoformat_value)
                        (\<lambda>d. Inr (Some d))
                 else Inr None)) (\<lambda>pt.
     and_then (and_then (py_get v ''owner_name'') (as_opt_str ''owner_name'')) (\<lambda>ow.
     and_then (and_then (py_get v ''view_count'') (as_opt_int ''view_count'')) (\<lambda>vc.
     and_then (and_then (py_get v ''danmaku_count'') (as_opt_int ''danmaku_count'')) (\<lambda>dc.
     and_then (and_then (py_get v ''like_count'') (as_opt_int ''like_count'')) (\<lambda>lc.
     and_then (and_then (py_get v ''ranking_index'') (as_opt_int ''ranking_index'')) (\<lambda>ri.
       Inr \<lparr>aid = a, bvid = b, cid = c, title = t, keyword = k, duration = du,
            publish_time = pt, owner_name = ow, view_count = vc, danmaku_count = dc,
            like_count = lc, ranking_index = ri\<rparr>))))))))))))"

definition record_from_dict :: "json \<Rightarrow> error + DanmakuRecord" where
  "record_from_dict item =
     and_then (and_then (py_item item ''video_bvid'') (as_str ''video_bvid'')) (\<lambda>vb.
     and_then (and_then (py_item item ''video_cid'') (as_int ''video_cid'')) (\<lambda>vc.
     and_then (and_then (py_item item ''content'') (as_str ''content'')) (\<lambda>ct.
     and_then (and_then (py_item item ''appear_time'') (as_float ''appear_time'')) (\<lambda>ap.
     and_then (and_then (py_item item ''send_time'') fromisoformat_value) (\<lambda>st.
     and_then (and_then (py_item item ''mode'') (as_int ''mode'')) (\<lambda>md.
     and_then (and_then (py_item item ''font_size'') (as_int ''font_size'')) (\<lambda>fs.
     and_then (and_then (py_item item ''font_color'') (as_int ''font_color'')) (\<lambda>fc.
     and_then (and_then (py_get item ''author_hash'') (as_opt_str ''author_hash'')) (\<lambda>ah.
     and_then (and_then (py_get item ''weight'') (as_opt_int ''weight'')) (\<lambda>wt.
     and_then (and_then (py_get item ''pool'') (as_opt_int ''pool'')) (\<lambda>pl.
       Inr \<lparr>video_bvid = vb, video_cid = vc, content = ct, appear_time = ap,
            send_time = st, mode = md, font_size = fs, font_color = fc,
            author_hash = ah, weight = wt, pool = pl\<rparr>)))))))))))"

definition from_dict :: "json \<Rightarrow> error + VideoDanmakuBundle" where
  "from_dict payload =
     and_then (py_item payload ''video'') (\<lambda>v.
     and_then (py_get_default payload ''danmaku'' (JList [])) (\<lambda>danmaku_list.
     and_then (metadata_from_dict v) (\<lambda>metadata.
     and_then (py_iter danmaku_list) (\<lambda>items.
     and_then (map_raising record_from_dict items) (\<lambda>records.
       Inr \<lparr>video = metadata, danmaku = records\<rparr>)))))"

section \<open>Persistence (persistence.py)\<close>

text \<open>
  A text either decodes to a value or is malformed; the encoding itself (\<open>json.dumps\<close>
  and \<open>json.loads\<close>, the XML parser) is the library's. The file system is a map from
  paths to the documents stored there.
\<close>

datatype 'a doc = Doc 'a | Malformed

type_synonym store = "string \<rightharpoonup> json doc"

record PathConfig =
  raw_dir :: string

definition bundle_path :: "string \<Rightarrow> string \<Rightarrow> string" where
  "bundle_path dir bv = dir @ ''/'' @ bv @ ''.json''"

definition dump_bundle :: "VideoDanmakuBundle \<Rightarrow> PathConfig \<Rightarrow> store \<Rightarrow> string \<times> store" where
  "dump_bundle bundle paths fs =
     (let json_path = bundle_path (raw_dir paths) (bvid (video bundle))
      in (json_path, fs(json_path \<mapsto> Doc (to_dict bundle))))"

definition load_bundle :: "store \<Rightarrow> string \<Rightarrow> error + VideoDanmakuBundle" where
  "load_bundle fs path =
     (case fs path of
        None \<Rightarrow> Inl FileNotFoundError
      | Some Malformed \<Rightarrow> Inl JSONDecodeError
      | Some (Doc payload) \<Rightarrow> from_dict payload)"

text \<open>The bundles whose timestamps are values a \<open>datetime\<close> object can hold.\<close>

definition valid_bundle :: "VideoDanmakuBundle \<Rightarrow> bool" where
  "valid_bundle b =
     ((case publish_time (video b) of None \<Rightarrow> True | Some t \<Rightarrow> valid_datetime t)
      \<and> list_all (\<lambda>r. valid_datetime (send_time r)) (danmaku b))"

text \<open>A bundle with present and absent optional fields, for concrete checks.\<close>

definition sample_bundle :: VideoDanmakuBundle where
  "sample_bundle =
     \<lparr>video =
        \<lparr>aid = 1, bvid = ''BV1'', cid = 2, title = ''t'', keyword = ''k'', duration = None,
         publish_time = Some \<lparr>year = 987, month = 2, day = 28, hour = 0, minute = 3,
                               second = 59, microsecond = 1500\<rparr>,
         owner_name = None, view_count = Some 0, danmaku_count = None,
         like_count = Some 3, ranking_index = Some 1\<rparr>,
      danmaku =
        [\<lparr>video_bvid = ''BV1'', video_cid = 2, content = [], appear_time = 25 / 2,
          send_time = \<lparr>year = 2023, month = 11, day = 14, hour = 22, minute = 13,
                        second = 20, microsecond = 0\<rparr>,
          mode = 1, font_size = 25, font_color = 3, author_hash = Some [],
          weight = None, pool = Some 0\<rparr>]\<rparr>"

section \<open>Configuration (config.py)\<close>

record CrawlerConfig =
  keyword_list :: "string list"
  max_videos :: int
  search_order :: string
  pages_per_keyword :: "int option"
  concurrent_requests :: int
  retry_attempts :: int
  sleep_interval :: pyfloat
  enable_cache :: bool

section \<open>The crawler (crawler.py)\<close>

definition SEARCH_API :: string where
  "SEARCH_API = ''https://api.bilibili.com/x/web-interface/search/type''"

definition VIEW_API :: string where
  "VIEW_API = ''https://api.bilibili.com/x/web-interface/view''"

definition DM_LIST_API :: string where
  "DM_LIST_API = ''https://api.bilibili.com/x/v1/dm/list.so''"

subsection \<open>Upstream payloads\<close>

text \<open>
  The code reads one key of a search result, \<open>bvid\<close>; \<open>None\<close> is a missing key or a JSON
  null, \<open>Some []\<close> the empty string. In every payload record a field is \<open>None\<close> when
  the key is missing.
\<close>

record search_result =
  result_bvid :: "string option"

record search_data =
  data_result :: "search_result list option"

record search_payload =
  payload_data :: "search_data option"

record view_stat =
  stat_view :: "int option"
  stat_danmaku :: "int option"
  stat_like :: "int option"

record view_owner =
  owner_dict_name :: "string option"

record view_data =
  data_aid :: "int option"
  data_bvid :: "string option"
  data_cid :: "int option"
  data_title :: "string option"
  data_duration :: "int option"
  data_pubdate :: "int option"
  data_stat :: "view_stat option"
  data_owner :: "view_owner option"

record view_payload =
  view_payload_data :: "view_data option"

text \<open>
  The upstream: for each logical request, the outcome of its successive HTTP attempts
  (\<open>client.get\<close> followed by \<open>raise_for_status\<close>), numbered from 0. An attempt raises or
  returns a body, which decodes to a payload or is malformed.
\<close>

record network =
  search_api :: "string \<Rightarrow> string \<Rightarrow> nat \<Rightarrow> nat \<Rightarrow> error + search_payload doc"
  view_api :: "string \<Rightarrow> nat \<Rightarrow> error + view_payload doc"
  dm_list_api :: "int \<Rightarrow> nat \<Rightarrow> error + xml_node list doc"

subsection \<open>\<open>VideoMetadata.from_view_api\<close>\<close>

definition from_view_api ::
  "view_data \<Rightarrow> string \<Rightarrow> int \<Rightarrow> int option \<Rightarrow> error + VideoMetadata" where
  "from_view_api payload kw ci rank =
     (let stat = data_stat payload;
          owner = data_owner payload;
          pubdate = data_pubdate payload
      in and_then
           (case pubdate of
              None \<Rightarrow> Inr None
            | Some p \<Rightarrow>
                if p = 0 then Inr None
                else and_then (parse_timestamp (of_int p)) (\<lambda>t. Inr (Some t)))
           (\<lambda>pt.
              case data_aid payload of
                None \<Rightarrow> Inl (KeyError ''aid'')
              | Some a \<Rightarrow>
                  (case data_bvid payload of
                     None \<Rightarrow> Inl (KeyError ''bvid'')
                   | Some b \<Rightarrow>
                       Inr \<lparr>aid = a, bvid = b, cid = ci,
                            title = (case data_title payload of None \<Rightarrow> [] | Some t \<Rightarrow> t),
                            keyword = kw,
                            duration =
                              (case data_duration payload of
                                 None \<Rightarrow> None
                               | Some d \<Rightarrow> if d = 0 then None else Some d),
                            publish_time = pt,
                            owner_name = (case owner of None \<Rightarrow> None | Some ow \<Rightarrow> owner_dict_name ow),
                            view_count = (case stat of None \<Rightarrow> None | Some st \<Rightarrow> stat_view st),
                            danmaku_count = (case stat of None \<Rightarrow> None | Some st \<Rightarrow> stat_danmaku st),
                            like_count = (case stat of None \<Rightarrow> None | Some st \<Rightarrow> stat_like st),
                            ranking_index = rank\<rparr>)))"

subsection \<open>The fetch client: \<open>_request\<close>\<close>

text \<open>
  What a request does is recorded as a trace: the pacing sleep before an attempt, the
  attempt itself, the backoff sleep after a failed attempt that is retried.
\<close>

datatype param = PStr string | PInt int

datatype event =
    PacingSleep pyfloat
  | BackoffSleep pyfloat
  | HttpGet string "(string \<times> param) list"

text \<open>One attempt: the pacing sleep, when \<open>sleep_interval\<close> is true, and the GET.\<close>

definition attempt_events ::
  "CrawlerConfig \<Rightarrow> string \<Rightarrow> (string \<times> param) list \<Rightarrow> event list" where
  "attempt_events cfg url params =
     (if sleep_interval cfg \<noteq> 0 then [PacingSleep (sleep_interval cfg)] else [])
     @ [HttpGet url params]"

text \<open>
  The loop \<open>while True\<close> of \<open>_request\<close> with \<open>attempts\<close> failures behind it. It ends:
  an attempt succeeds, or the failure count reaches \<open>retry_attempts\<close>.
\<close>

function request_from ::
  "CrawlerConfig \<Rightarrow> string \<Rightarrow> (string \<times> param) list \<Rightarrow> (nat \<Rightarrow> error + 'r) \<Rightarrow> nat
   \<Rightarrow> (error + 'r) \<times> event list" where
  "request_from cfg url params attempt attempts =
     (case attempt attempts of
        Inr response \<Rightarrow> (Inr response, attempt_events cfg url params)
      | Inl exc \<Rightarrow>
          if retry_attempts cfg \<le> int (Suc attempts)
          then (Inl exc, attempt_events cfg url params)
          else (case request_from cfg url params attempt (Suc attempts) of
                  (res, later) \<Rightarrow>
                    (res, attempt_events cfg url params
                          @ [BackoffSleep (3 / 2 * of_nat (Suc attempts))] @ later)))"
  by pat_completeness auto
termination
  by (relation "measure (\<lambda>(cfg, url, params, attempt, attempts).
                  nat (retry_attempts cfg) - attempts)") auto

declare request_from.simps [simp del]

text \<open>The backoff sleeps and the GETs of a trace, in order.\<close>

fun backoff_of :: "event \<Rightarrow> pyfloat list" where
  "backoff_of (BackoffSleep d) = [d]"
| "backoff_of e = []"

definition backoffs :: "event list \<Rightarrow> pyfloat list" where
  "backoffs tr = concat (map backoff_of tr)"

fun is_get :: "event \<Rightarrow> bool" where
  "is_get (HttpGet url params) = True"
| "is_get e = False"

definition http_gets :: "event list \<Rightarrow> event list" where
  "http_gets tr = filter is_get tr"

definition request ::
  "CrawlerConfig \<Rightarrow> string \<Rightarrow> (string \<times> param) list \<Rightarrow> (nat \<Rightarrow> error + 'r)
   \<Rightarrow> (error + 'r) \<times> event list" where
  "request cfg url params attempt = request_from cfg url params attempt 0"

definition request_json ::
  "CrawlerConfig \<Rightarrow> string \<Rightarrow> (string \<times> param) list \<Rightarrow> (nat \<Rightarrow> error + 'p doc)
   \<Rightarrow> (error + 'p) \<times> event list" where
  "request_json cfg url params attempt =
     (case request cfg url params attempt of
        (Inl e, tr) \<Rightarrow> (Inl e, tr)
      | (Inr Malformed, tr) \<Rightarrow> (Inl JSONDecodeError, tr)
      | (Inr (Doc payload), tr) \<Rightarrow> (Inr payload, tr))"

definition fetch_danmaku ::
  "CrawlerConfig \<Rightarrow> network \<Rightarrow> int \<Rightarrow> string \<Rightarrow> (error + xml_node list) \<times> event list" where
  "fetch_danmaku cfg net ci bv =
     (case request cfg DM_LIST_API [(''oid'', PInt ci)] (dm_list_api net ci) of
        (Inl e, tr) \<Rightarrow> (Inl e, tr)
      | (Inr Malformed, tr) \<Rightarrow> (Inl ParseError, tr)
      | (Inr (Doc nodes), tr) \<Rightarrow> (Inr nodes, tr))"

subsection \<open>\<open>_search_keyword\<close>\<close>

definition search_params :: "string \<Rightarrow> nat \<Rightarrow> string \<Rightarrow> (string \<times> param) list" where
  "search_params kw page ord =
     [(''search_type'', PStr ''video''), (''keyword'', PStr kw),
      (''page'', PInt (int page)), (''order'', PStr ord)]"

definition search_page ::
  "CrawlerConfig \<Rightarrow> network \<Rightarrow> string \<Rightarrow> nat \<Rightarrow> (error + search_payload) \<times> event list" where
  "search_page cfg net kw page =
     request_json cfg SEARCH_API (search_params kw page (search_order cfg))
       (search_api net kw (search_order cfg) page)"

text \<open>\<open>(payload.get("data") or {}).get("result") or []\<close>\<close>

definition search_items :: "search_payload \<Rightarrow> search_result list" where
  "search_items payload =
     (case payload_data payload of
        None \<Rightarrow> []
      | Some d \<Rightarrow> (case data_result d of None \<Rightarrow> [] | Some xs \<Rightarrow> xs))"

text \<open>The inner \<open>for\<close> loop: append items until one of the two quotas is reached.\<close>

fun append_items ::
  "CrawlerConfig \<Rightarrow> int \<Rightarrow> search_result list \<Rightarrow> search_result list \<Rightarrow> search_result list" where
  "append_items cfg per_keyword results [] = results"
| "append_items cfg per_keyword results (item # items) =
     (let results' = results @ [item]
      in if per_keyword \<le> int (length results') \<or> max_videos cfg \<le> int (length results')
         then results'
         else append_items cfg per_keyword results' items)"

text \<open>The slice \<open>xs[:n]\<close>; a negative \<open>n\<close> counts from the end.\<close>

definition py_prefix :: "int \<Rightarrow> 'a list \<Rightarrow> 'a list" where
  "py_prefix n xs = (if 0 \<le> n then take (nat n) xs else take (length xs - nat (- n)) xs)"

text \<open>\<open>self.config.pages_per_keyword and page > self.config.pages_per_keyword\<close>\<close>

definition page_limit_hit :: "CrawlerConfig \<Rightarrow> nat \<Rightarrow> bool" where
  "page_limit_hit cfg page =
     (case pages_per_keyword cfg of None \<Rightarrow> False | Some c \<Rightarrow> c \<noteq> 0 \<and> c < int page)"

function search_loop ::
  "CrawlerConfig \<Rightarrow> network \<Rightarrow> string \<Rightarrow> int \<Rightarrow> search_result list \<Rightarrow> nat
   \<Rightarrow> (error + search_result list) \<times> event list" where
  "search_loop cfg net kw per_keyword results page =
     (if \<not> int (length results) < per_keyword then (Inr (py_prefix per_keyword results), [])
      else
        (case search_page cfg net kw page of
           (Inl e, tr) \<Rightarrow> (Inl e, tr)
         | (Inr payload, tr) \<Rightarrow>
             if search_items payload = [] then (Inr (py_prefix per_keyword results), tr)
             else if page_limit_hit cfg (Suc page)
             then (Inr (py_prefix per_keyword
                          (append_items cfg per_keyword results (search_items payload))), tr)
             else (case search_loop cfg net kw per_keyword
                          (append_items cfg per_keyword results (search_items payload))
                          (Suc page) of
                     (res, later) \<Rightarrow> (res, tr @ later))))"
  by pat_completeness auto
termination
proof (relation "measure (\<lambda>(cfg, net, kw, per_keyword, results, page).
                   nat (per_keyword - int (length results)))")
  show "wf (measure (\<lambda>(cfg, net, kw, per_keyword, results, page).
              nat (per_keyword - int (length (results :: search_result list)))))"
    by simp
next
  fix cfg :: CrawlerConfig and net :: network and kw :: string and per_keyword :: int
    and results :: "search_result list" and page :: nat
    and x :: "(error + search_payload) \<times> event list"
    and res tr and payload :: search_payload
  assume quota: "\<not> \<not> int (length results) < per_keyword"
    and nonempty: "search_items payload \<noteq> []"
  have grows: "length rs < length (append_items cfg per_keyword rs items)"
    if "items \<noteq> []" for rs items
    using that
  proof (induction items arbitrary: rs)
    case Nil
    then show ?case by simp
  next
    case (Cons item items)
    show ?case
    proof (cases items)
      case Nil
      then show ?thesis by (simp add: Let_def)
    next
      case (Cons i rest)
      with Cons.IH [of "rs @ [item]"] show ?thesis
        by (auto simp: Let_def)
    qed
  qed
  from grows [OF nonempty, of results] quota
  show "((cfg, net, kw, per_keyword,
          append_items cfg per_keyword results (search_items payload), Suc page),
         (cfg, net, kw, per_keyword, results, page))
        \<in> measure (\<lambda>(cfg, net, kw, per_keyword, results, page).
              nat (per_keyword - int (length results)))"
    by simp
qed

declare search_loop.simps [simp del]

definition search_keyword ::
  "CrawlerConfig \<Rightarrow> network \<Rightarrow> string \<Rightarrow> int \<Rightarrow> (error + search_result list) \<times> event list" where
  "search_keyword cfg net kw per_keyword = search_loop cfg net kw per_keyword [] 1"

text \<open>The default configuration of \<open>CrawlerConfig\<close>, with one keyword.\<close>

definition sample_config :: CrawlerConfig where
  "sample_config =
     \<lparr>keyword_list = [''LLM''], max_videos = 360, search_order = ''totalrank'',
      pages_per_keyword = None, concurrent_requests = 2, retry_attempts = 3,
      sleep_interval = 2 / 5, enable_cache = True\<rparr>"

subsection \<open>The three stopping conditions of the pagination\<close>

text \<open>
  The items of page \<open>p\<close> of a keyword, the results accumulated once pages \<open>1..k\<close> have been
  read, and the condition under which the loop stops after page \<open>k\<close>: the page is empty,
  the per-keyword share is met, or the page ceiling is hit.
\<close>

definition page_items :: "CrawlerConfig \<Rightarrow> network \<Rightarrow> string \<Rightarrow> nat \<Rightarrow> search_result list" where
  "page_items cfg net kw p =
     (case fst (search_page cfg net kw p) of
        Inl e \<Rightarrow> []
      | Inr payload \<Rightarrow> search_items payload)"

fun results_after ::
  "CrawlerConfig \<Rightarrow> network \<Rightarrow> string \<Rightarrow> int \<Rightarrow> nat \<Rightarrow> search_result list" where
  "results_after cfg net kw per_keyword 0 = []"
| "results_after cfg net kw per_keyword (Suc k) =
     append_items cfg per_keyword (results_after cfg net kw per_keyword k)
       (page_items cfg net kw (Suc k))"

definition stops_after :: "CrawlerConfig \<Rightarrow> network \<Rightarrow> string \<Rightarrow> int \<Rightarrow> nat \<Rightarrow> bool" where
  "stops_after cfg net kw per_keyword k =
     (page_items cfg net kw k = []
      \<or> per_keyword \<le> int (length (results_after cfg net kw per_keyword k))
      \<or> page_limit_hit cfg (Suc k))"

text \<open>
  A healthy upstream for concrete checks: every search has two results on page 1 and none
  on later pages, every video has info and an empty comment list.
\<close>

definition sample_network :: network where
  "sample_network =
     \<lparr>search_api = (\<lambda>kw ord page attempt.
        if page = 1
        then Inr (Doc \<lparr>payload_data =
               Some \<lparr>data_result = Some [\<lparr>result_bvid = Some ''BV1''\<rparr>,
                                         \<lparr>result_bvid = Some ''BV2''\<rparr>]\<rparr>\<rparr>)
        else Inr (Doc \<lparr>payload_data = Some \<lparr>data_result = Some []\<rparr>\<rparr>)),
      view_api = (\<lambda>bv attempt.
        Inr (Doc \<lparr>view_payload_data =
               Some \<lparr>data_aid = Some 1, data_bvid = Some bv, data_cid = Some 10,
                     data_title = Some ''t'', data_duration = Some 0,
                     data_pubdate = None, data_stat = None, data_owner = None\<rparr>\<rparr>)),
      dm_list_api = (\<lambda>ci attempt. Inr (Doc []))\<rparr>"

subsection \<open>\<open>_collect_video_bundle\<close>\<close>

text \<open>The clause \<open>except httpx.HTTPStatusError\<close> catches this exception and no other.\<close>

fun http_status_error :: "error \<Rightarrow> bool" where
  "http_status_error (HTTPStatusError status) = True"
| "http_status_error e = False"

text \<open>
  One unit of work. It returns its result (an exception, \<open>None\<close> or a bundle), the file
  system it leaves and the trace of its requests. The referer header built from the short
  id does not influence the control flow and is left out.
\<close>

definition collect_video_bundle ::
  "CrawlerConfig \<Rightarrow> PathConfig \<Rightarrow> network \<Rightarrow> store \<Rightarrow> search_result \<Rightarrow> string \<Rightarrow> int
   \<Rightarrow> (error + VideoDanmakuBundle option) \<times> store \<times> event list" where
  "collect_video_bundle cfg paths net fs search_item kw rank =
     (case result_bvid search_item of
        None \<Rightarrow> (Inr None, fs, [])
      | Some bv \<Rightarrow>
          if bv = [] then (Inr None, fs, [])
          else if enable_cache cfg \<and> fs (bundle_path (raw_dir paths) bv) \<noteq> None
          then (case load_bundle fs (bundle_path (raw_dir paths) bv) of
                  Inl e \<Rightarrow> (Inl e, fs, [])
                | Inr b \<Rightarrow> (Inr (Some b), fs, []))
          else
            (case request_json cfg VIEW_API [(''bvid'', PStr bv)] (view_api net bv) of
               (Inl e, tr) \<Rightarrow>
                 if http_status_error e then (Inr None, fs, tr) else (Inl e, fs, tr)
             | (Inr view_payload, tr) \<Rightarrow>
                 (case view_payload_data view_payload of
                    None \<Rightarrow> (Inr None, fs, tr)
                  | Some d \<Rightarrow>
                      (case data_cid d of
                         None \<Rightarrow> (Inr None, fs, tr)
                       | Some ci \<Rightarrow>
                           (case from_view_api d kw ci (Some rank) of
                              Inl e \<Rightarrow> (Inl e, fs, tr)
                            | Inr metadata \<Rightarrow>
                                (case fetch_danmaku cfg net ci (bvid metadata) of
                                   (dm, tr2) \<Rightarrow>
                                     (case (case dm of
                                              Inl e \<Rightarrow>
                                                if http_status_error e then Inr [] else Inl e
                                            | Inr nodes \<Rightarrow> Inr nodes) of
                                        Inl e \<Rightarrow> (Inl e, fs, tr @ tr2)
                                      | Inr danmaku_nodes \<Rightarrow>
                                          (case map_raising
                                                  (\<lambda>node. from_xml_node node (bvid metadata)
                                                             (cid metadata))
                                                  danmaku_nodes of
                                             Inl e \<Rightarrow> (Inl e, fs, tr @ tr2)
                                           | Inr danmaku_records \<Rightarrow>
                                               (let bundle = \<lparr>video = metadata,
                                                              danmaku = danmaku_records\<rparr>
                                                in (Inr (Some bundle),
                                                    if enable_cache cfg
                                                    then snd (dump_bundle bundle paths fs)
                                                    else fs,
                                                    tr @ tr2))))))))))"

text \<open>
  \<open>_bounded_collect_video_bundle\<close> runs the unit inside \<open>async with self._semaphore\<close>; the
  semaphore decides when the unit runs, not what it computes.
\<close>

definition bounded_collect_video_bundle ::
  "CrawlerConfig \<Rightarrow> PathConfig \<Rightarrow> network \<Rightarrow> store \<Rightarrow> search_result \<Rightarrow> string \<Rightarrow> int
   \<Rightarrow> (error + VideoDanmakuBundle option) \<times> store \<times> event list" where
  "bounded_collect_video_bundle cfg paths net fs search_item kw rank =
     collect_video_bundle cfg paths net fs search_item kw rank"

subsection \<open>\<open>crawl\<close>: discovery\<close>

text \<open>A scheduled unit: the arguments of the pending \<open>_bounded_collect_video_bundle\<close> call.\<close>

record task =
  task_item :: search_result
  task_keyword :: string
  task_ranking_index :: int

text \<open>The variables \<open>tasks\<close>, \<open>ranking_index\<close> and \<open>seen_bvids\<close> of \<open>crawl\<close>.\<close>

record schedule =
  sched_tasks :: "task list"
  sched_ranking_index :: int
  seen_bvids :: "string set"

definition empty_schedule :: schedule where
  "empty_schedule = \<lparr>sched_tasks = [], sched_ranking_index = 0, seen_bvids = {}\<rparr>"

text \<open>The body of \<open>for result in search_results\<close>.\<close>

definition schedule_result :: "string \<Rightarrow> search_result \<Rightarrow> schedule \<Rightarrow> schedule" where
  "schedule_result kw result st =
     (case result_bvid result of
        None \<Rightarrow> st
      | Some bv \<Rightarrow>
          if bv = [] \<or> bv \<in> seen_bvids st then st
          else \<lparr>sched_tasks =
                  sched_tasks st
                  @ [\<lparr>task_item = result, task_keyword = kw,
                      task_ranking_index = sched_ranking_index st + 1\<rparr>],
                sched_ranking_index = sched_ranking_index st + 1,
                seen_bvids = insert bv (seen_bvids st)\<rparr>)"

definition schedule_results :: "string \<Rightarrow> search_result list \<Rightarrow> schedule \<Rightarrow> schedule" where
  "schedule_results kw results st = fold (schedule_result kw) results st"

definition per_keyword_share :: "CrawlerConfig \<Rightarrow> int" where
  "per_keyword_share cfg =
     max 1 (max_videos cfg div max 1 (int (length (keyword_list cfg))))"

text \<open>The loop \<open>for keyword in self.config.keywords_iter()\<close>; a failing search ends it.\<close>

fun crawl_keywords ::
  "CrawlerConfig \<Rightarrow> network \<Rightarrow> int \<Rightarrow> string list \<Rightarrow> schedule
   \<Rightarrow> (error + schedule) \<times> event list" where
  "crawl_keywords cfg net per_keyword [] st = (Inr st, [])"
| "crawl_keywords cfg net per_keyword (kw # kws) st =
     (case search_keyword cfg net kw per_keyword of
        (Inl e, tr) \<Rightarrow> (Inl e, tr)
      | (Inr search_results, tr) \<Rightarrow>
          (case crawl_keywords cfg net per_keyword kws (schedule_results kw search_results st) of
             (res, later) \<Rightarrow> (res, tr @ later)))"

text \<open>
  The same two loops over given search results, one list per keyword, and the pairs of
  keyword and result in the order the loops visit them.
\<close>

definition schedule_all :: "(string \<times> search_result list) list \<Rightarrow> schedule \<Rightarrow> schedule" where
  "schedule_all found st = fold (\<lambda>(kw, results). schedule_results kw results) found st"

definition discoveries :: "(string \<times> search_result list) list \<Rightarrow> (string \<times> search_result) list" where
  "discoveries found = concat (map (\<lambda>(kw, results). map (Pair kw) results) found)"

text \<open>The short id of a result when it is true (present and not empty).\<close>

definition true_bvid :: "search_result \<Rightarrow> string list" where
  "true_bvid result =
     (case result_bvid result of None \<Rightarrow> [] | Some bv \<Rightarrow> if bv = [] then [] else [bv])"

definition task_bvid :: "task \<Rightarrow> string" where
  "task_bvid t = (case result_bvid (task_item t) of None \<Rightarrow> [] | Some bv \<Rightarrow> bv)"

subsection \<open>\<open>crawl\<close>: collection\<close>

text \<open>
  \<open>asyncio.as_completed\<close> yields the units in the order in which they complete, which the
  scheduler decides: the model takes that order as a parameter (indices into \<open>tasks\<close>)
  and runs each unit as one step on the file system. The first unit that raises ends
  the loop, and \<open>crawl\<close>, with its exception.
\<close>

fun gather ::
  "CrawlerConfig \<Rightarrow> PathConfig \<Rightarrow> network \<Rightarrow> task list \<Rightarrow> store \<Rightarrow> VideoDanmakuBundle list
   \<Rightarrow> (error + VideoDanmakuBundle list) \<times> store \<times> event list" where
  "gather cfg paths net [] fs bundles = (Inr bundles, fs, [])"
| "gather cfg paths net (t # ts) fs bundles =
     (case bounded_collect_video_bundle cfg paths net fs
             (task_item t) (task_keyword t) (task_ranking_index t) of
        (Inl e, fs', tr) \<Rightarrow> (Inl e, fs', tr)
      | (Inr bundle, fs', tr) \<Rightarrow>
          (case gather cfg paths net ts fs'
                  (case bundle of None \<Rightarrow> bundles | Some b \<Rightarrow> bundles @ [b]) of
             (res, fs'', later) \<Rightarrow> (res, fs'', tr @ later)))"

definition completion_order :: "nat list \<Rightarrow> 'a list \<Rightarrow> 'a list" where
  "completion_order completion ts = map (\<lambda>i. ts ! i) (filter (\<lambda>i. i < length ts) completion)"

definition crawl ::
  "CrawlerConfig \<Rightarrow> PathConfig \<Rightarrow> network \<Rightarrow> store \<Rightarrow> nat list
   \<Rightarrow> (error + VideoDanmakuBundle list) \<times> store \<times> event list" where
  "crawl cfg paths net fs completion =
     (case crawl_keywords cfg net (per_keyword_share cfg) (keyword_list cfg) empty_schedule of
        (Inl e, tr) \<Rightarrow> (Inl e, fs, tr)
      | (Inr st, tr) \<Rightarrow>
          (case gather cfg paths net (completion_order completion (sched_tasks st)) fs [] of
             (res, fs', later) \<Rightarrow> (res, fs', tr @ later)))"

subsection \<open>The semaphore\<close>

text \<open>
  \<open>asyncio.Semaphore(max(1, concurrent_requests))\<close> as a counter. All units are started
  at once and wait at \<open>async with self._semaphore\<close>. A waiting unit enters when the
  counter is positive, decrementing it; a unit that leaves the block, by return or by
  exception, increments it.
\<close>

record pool =
  sem_value :: nat
  waiting :: "nat set"
  in_flight :: "nat set"
  completed :: "nat set"

definition semaphore_limit :: "CrawlerConfig \<Rightarrow> nat" where
  "semaphore_limit cfg = nat (max 1 (concurrent_requests cfg))"

definition initial_pool :: "CrawlerConfig \<Rightarrow> nat \<Rightarrow> pool" where
  "initial_pool cfg n =
     \<lparr>sem_value = semaphore_limit cfg, waiting = {0..<n}, in_flight = {}, completed = {}\<rparr>"

inductive pool_step :: "pool \<Rightarrow> pool \<Rightarrow> bool" where
  acquire:
    "i \<in> waiting s \<Longrightarrow> 0 < sem_value s \<Longrightarrow>
     pool_step s (s\<lparr>sem_value := sem_value s - 1, waiting := waiting s - {i},
                     in_flight := insert i (in_flight s)\<rparr>)"
| release:
    "i \<in> in_flight s \<Longrightarrow>
     pool_step s (s\<lparr>sem_value := sem_value s + 1, in_flight := in_flight s - {i},
                     completed := insert i (completed s)\<rparr>)"

inductive reachable :: "CrawlerConfig \<Rightarrow> nat \<Rightarrow> pool \<Rightarrow> bool" where
  start: "reachable cfg n (initial_pool cfg n)"
| step: "reachable cfg n s \<Longrightarrow> pool_step s s' \<Longrightarrow> reachable cfg n s'"

text \<open>
  The true short ids among discovered pairs, in order, and what the discovery loop
  maintains once it has visited the pairs \<open>ds\<close>.
\<close>

definition discovered_bvids :: "(string \<times> search_result) list \<Rightarrow> string list" where
  "discovered_bvids ds = concat (map (\<lambda>(kw, result). true_bvid result) ds)"

definition first_with_bvid ::
  "string \<Rightarrow> (string \<times> search_result) list \<Rightarrow> (string \<times> search_result) option" where
  "first_with_bvid bv ds = find (\<lambda>(kw, result). result_bvid result = Some bv) ds"

definition schedule_invariant :: "(string \<times> search_result) list \<Rightarrow> schedule \<Rightarrow> bool" where
  "schedule_invariant ds st =
     (seen_bvids st = set (discovered_bvids ds)
      \<and> sched_ranking_index st = int (length (sched_tasks st))
      \<and> map task_ranking_index (sched_tasks st) = map int [1..<Suc (length (sched_tasks st))]
      \<and> map task_bvid (sched_tasks st) = rev (remdups (rev (discovered_bvids ds)))
      \<and> (\<forall>t\<in>set (sched_tasks st).
            task_bvid t \<noteq> [] \<and> result_bvid (task_item t) = Some (task_bvid t)
            \<and> first_with_bvid (task_bvid t) ds = Some (task_keyword t, task_item t)))"

text \<open>
  Variants of the upstream for concrete checks. In the first the video-info endpoint
  answers with an empty short id. In the second every attempt to look up \<open>BV2\<close> times
  out. In the third the lookup of \<open>BV2\<close> and every comment fetch are refused with HTTP
  status 412.
\<close>

definition blank_bvid_network :: network where
  "blank_bvid_network =
     sample_network
       \<lparr>view_api := (\<lambda>bv attempt.
          Inr (Doc \<lparr>view_payload_data =
                 Some \<lparr>data_aid = Some 1, data_bvid = Some [], data_cid = Some 10,
                       data_title = Some ''t'', data_duration = Some 0,
                       data_pubdate = None, data_stat = None, data_owner = None\<rparr>\<rparr>))\<rparr>"

definition timeout_network :: network where
  "timeout_network =
     sample_network
       \<lparr>view_api := (\<lambda>bv attempt.
          if bv = ''BV2'' then Inl (TransportError ''timeout'')
          else view_api sample_network bv attempt)\<rparr>"

definition rate_limited_network :: network where
  "rate_limited_network =
     sample_network
       \<lparr>view_api := (\<lambda>bv attempt.
          if bv = ''BV2'' then Inl (HTTPStatusError 412)
          else view_api sample_network bv attempt),
        dm_list_api := (\<lambda>ci attempt. Inl (HTTPStatusError 412))\<rparr>"

definition uncached_config :: CrawlerConfig where
  "uncached_config = sample_config\<lparr>enable_cache := False\<rparr>"

text \<open>A unit scheduled for a result whose short id is true.\<close>

definition true_task :: "task \<Rightarrow> bool" where
  "true_task t = (task_bvid t \<noteq> [] \<and> result_bvid (task_item t) = Some (task_bvid t))"

section \<open>Properties of the comment record parser\<close>

lemmas literal_defs =
  py_int_def py_float_def strip_def is_space_def signed_digits_def dec_digits_def
  is_digit_def digit_val_def unsigned_float_def dec_mantissa_def is_exp_mark_def
  count_digits_def safe_int_def

lemma split_comma_not_Nil: "split_comma s \<noteq> []"
  by (induction s) (auto split: list.splits)

text \<open>The number of fields is one more than the number of commas.\<close>

lemma length_split_comma:
  "length (split_comma s) = Suc (length (filter (\<lambda>c. c = CHR '','') s))"
  by (induction s) (auto split: list.splits simp: split_comma_not_Nil)

text \<open>
  C6. A payload whose attribute string splits into fewer than seven comma-separated
  fields makes \<open>from_xml_node\<close> raise \<open>ValueError("Unexpected danmaku payload")\<close>
  (the failure the specification calls MalformedRecord), whatever the fields hold, and
  no record is produced.
\<close>

theorem from_xml_node_too_few_fields:
  assumes "length (split_comma (p_attr node)) < 7"
  shows "from_xml_node node bv ci = Inl (ValueError ''Unexpected danmaku payload'')
         \<and> (\<forall>r. from_xml_node node bv ci \<noteq> Inr r)"
  using assms by (simp add: from_xml_node_def)

theorem from_xml_node_too_few_fields_witness:
  "length (split_comma (p_attr \<lparr>attrib_p = Some ''12.5,1,25,x,y,z'', node_text = None\<rparr>)) < 7
   \<and> from_xml_node \<lparr>attrib_p = Some ''12.5,1,25,x,y,z'', node_text = None\<rparr> ''BV1'' 7
       = Inl (ValueError ''Unexpected danmaku payload'')"
  using from_xml_node_too_few_fields
    [of "\<lparr>attrib_p = Some ''12.5,1,25,x,y,z'', node_text = None\<rparr>" "''BV1''" 7]
  by (simp add: p_attr_def)

subsection \<open>The parsing scenario\<close>

lemma scenario_fields:
  "split_comma ''12.5,1,25,16777215,1700000000,abcd1234,0,5'' =
   [''12.5'', ''1'', ''25'', ''16777215'', ''1700000000'', ''abcd1234'', ''0'', ''5'']"
  by simp

lemma scenario_appear_time: "py_float ''12.5'' = Inr (25 / 2)"
  by (simp add: literal_defs)

lemma scenario_mode: "py_int ''1'' = Inr 1"
  by (simp add: literal_defs)

lemma scenario_font_size: "py_int ''25'' = Inr 25"
  by (simp add: literal_defs)

lemma scenario_font_color: "py_int ''16777215'' = Inr 16777215"
  by (simp add: literal_defs)

lemma scenario_send_ts: "py_float ''1700000000'' = Inr 1700000000"
  by (simp add: literal_defs)

lemma scenario_pool: "safe_int ''0'' = Some 0"
  by (simp add: literal_defs)

lemma scenario_weight: "safe_int ''5'' = Some 5"
  by (simp add: literal_defs)

lemma scenario_day: "civil_from_days 19675 = (2023, 11, 14)"
  by code_simp

lemma scenario_microseconds:
  "round_half_even (1700000000 * 1000000) = 1700000000000000"
  by (simp add: round_half_even_def)

lemma scenario_send_time:
  "parse_timestamp 1700000000 =
   Inr \<lparr>year = 2023, month = 11, day = 14, hour = 22, minute = 13, second = 20,
        microsecond = 0\<rparr>"
  unfolding parse_timestamp_def scenario_microseconds by (simp add: scenario_day)

text \<open>
  C8. The attribute string \<open>12.5,1,25,16777215,1700000000,abcd1234,0,5\<close> with the text
  body \<open>hello\<close> parses to the record with appear time 12.5, mode 1, font size 25, font
  colour 16777215, send time 2023-11-14 22:13:20 UTC, author hash \<open>abcd1234\<close>, pool 0,
  weight 5 and content \<open>hello\<close>, for the video ids it is given.
\<close>

theorem from_xml_node_scenario:
  "from_xml_node
     \<lparr>attrib_p = Some ''12.5,1,25,16777215,1700000000,abcd1234,0,5'',
      node_text = Some ''hello''\<rparr> bv ci =
   Inr \<lparr>video_bvid = bv, video_cid = ci, content = ''hello'', appear_time = 25 / 2,
        send_time = \<lparr>year = 2023, month = 11, day = 14, hour = 22, minute = 13,
                     second = 20, microsecond = 0\<rparr>,
        mode = 1, font_size = 25, font_color = 16777215,
        author_hash = Some ''abcd1234'', weight = Some 5, pool = Some 0\<rparr>"
  unfolding from_xml_node_def p_attr_def
  by (simp add: scenario_fields scenario_appear_time scenario_mode scenario_font_size
      scenario_font_color scenario_send_ts scenario_pool scenario_weight scenario_send_time)

section \<open>The bundle round trip\<close>

subsection \<open>Timestamps and their ISO-8601 text\<close>

lemma of_char_digit_char: "n < 10 \<Longrightarrow> (of_char (digit_char n) :: nat) = 48 + n"
  by (simp add: digit_char_def)

lemma is_digit_digit_char: "n < 10 \<Longrightarrow> is_digit (digit_char n)"
  by (simp add: is_digit_def of_char_digit_char)

lemma digit_val_digit_char: "n < 10 \<Longrightarrow> digit_val (digit_char n) = n"
  by (simp add: digit_val_def of_char_digit_char)

lemma length_pad: "length (pad w n) = w"
  by (induction w arbitrary: n) simp_all

lemma all_digits_pad: "list_all is_digit (pad w n)"
  by (induction w arbitrary: n) (simp_all add: is_digit_digit_char)

lemma digits_value_snoc: "digits_value (t @ [c]) = 10 * digits_value t + digit_val c"
  by (simp add: digits_value_def)

lemma digits_value_pad: "digits_value (pad w n) = n mod 10 ^ w"
proof (induction w arbitrary: n)
  case 0
  show ?case by (simp add: digits_value_def)
next
  case (Suc w)
  have "digits_value (pad (Suc w) n) = 10 * (n div 10 mod 10 ^ w) + n mod 10"
    by (simp add: digits_value_snoc Suc digit_val_digit_char)
  also have "\<dots> = n mod 10 ^ Suc w"
    by (simp add: mod_mult2_eq)
  finally show ?case .
qed

lemma digits_at_pad:
  assumes "length p = i" and "n < 10 ^ w"
  shows "digits_at i w (p @ pad w n @ r) = Some n"
  using assms by (simp add: digits_at_def length_pad all_digits_pad digits_value_pad)

lemma char_at_sep: "length p = i \<Longrightarrow> char_at i (p @ c # r) = [c]"
  by (simp add: char_at_def)


lemma fromisoformat_isoformat:
  assumes v: "valid_datetime d"
  shows "fromisoformat (isoformat d) = Inr d"
proof -
  define Y Mo D h mi se us where
    "Y = year d" and "Mo = month d" and "D = day d" and "h = hour d"
    and "mi = minute d" and "se = second d" and "us = microsecond d"
  define tl6 where "tl6 = (if us = 0 then [] else ''.'' @ pad 6 us) @ ''+00:00''"
  define s where "s = isoformat d"
  have s_eq: "s = pad 4 Y @ ''-'' @ pad 2 Mo @ ''-'' @ pad 2 D @ ''T''
                  @ pad 2 h @ '':'' @ pad 2 mi @ '':'' @ pad 2 se @ tl6"
    by (simp add: s_def isoformat_def Y_def Mo_def D_def h_def mi_def se_def us_def tl6_def)
  have bounds: "Y < 10 ^ 4" "Mo < 10 ^ 2" "D < 10 ^ 2" "h < 10 ^ 2" "mi < 10 ^ 2"
    "se < 10 ^ 2" "us < 10 ^ 6"
    using v
    by (auto simp: valid_datetime_def days_in_month_def Y_def Mo_def D_def h_def mi_def
        se_def us_def split: if_splits)
  have fY: "digits_at 0 4 s = Some Y"
    using digits_at_pad [of "[]" 0 Y 4] bounds(1) by (simp add: s_eq)
  have fMo: "digits_at 5 2 s = Some Mo"
    using digits_at_pad [of "pad 4 Y @ ''-''" 5 Mo 2] bounds(2)
    by (simp add: s_eq length_pad)
  have fD: "digits_at 8 2 s = Some D"
    using digits_at_pad [of "pad 4 Y @ ''-'' @ pad 2 Mo @ ''-''" 8 D 2] bounds(3)
    by (simp add: s_eq length_pad)
  have fh: "digits_at 11 2 s = Some h"
    using digits_at_pad [of "pad 4 Y @ ''-'' @ pad 2 Mo @ ''-'' @ pad 2 D @ ''T''" 11 h 2]
      bounds(4)
    by (simp add: s_eq length_pad)
  have fmi: "digits_at 14 2 s = Some mi"
    using digits_at_pad
      [of "pad 4 Y @ ''-'' @ pad 2 Mo @ ''-'' @ pad 2 D @ ''T'' @ pad 2 h @ '':''" 14 mi 2]
      bounds(5)
    by (simp add: s_eq length_pad)
  have fse: "digits_at 17 2 s = Some se"
    using digits_at_pad
      [of "pad 4 Y @ ''-'' @ pad 2 Mo @ ''-'' @ pad 2 D @ ''T'' @ pad 2 h @ '':''
           @ pad 2 mi @ '':''" 17 se 2]
      bounds(6)
    by (simp add: s_eq length_pad)
  have seps: "char_at 4 s = ''-''" "char_at 7 s = ''-''" "char_at 10 s = ''T''"
    "char_at 13 s = '':''" "char_at 16 s = '':''"
    by (simp_all add: s_eq char_at_def length_pad)
  have rest: "drop 19 s = tl6"
    by (simp add: s_eq length_pad)
  have frac: "(if tl6 = ''+00:00'' then Some 0
               else if char_at 0 tl6 = ''.'' \<and> drop 7 tl6 = ''+00:00''
                    then digits_at 20 6 s
               else None) = Some us"
  proof (cases "us = 0")
    case True
    then show ?thesis by (simp add: tl6_def)
  next
    case False
    have "digits_at 20 6 s = Some us"
      using digits_at_pad
        [of "pad 4 Y @ ''-'' @ pad 2 Mo @ ''-'' @ pad 2 D @ ''T'' @ pad 2 h @ '':''
             @ pad 2 mi @ '':'' @ pad 2 se @ ''.''" 20 us 6 "''+00:00''"]
        bounds(7) False
      by (simp add: s_eq tl6_def length_pad)
    with False show ?thesis
      by (simp add: tl6_def char_at_def length_pad)
  qed
  have d_eq: "\<lparr>year = Y, month = Mo, day = D, hour = h, minute = mi, second = se,
               microsecond = us\<rparr> = d"
    by (simp add: Y_def Mo_def D_def h_def mi_def se_def us_def)
  show ?thesis
    unfolding s_def [symmetric] fromisoformat_def rest Let_def frac fY fMo fD fh fmi fse seps
    using v by (simp add: d_eq)
qed

lemma isoformat_not_Nil: "isoformat d \<noteq> []"
  by (simp add: isoformat_def)

subsection \<open>Documents\<close>

lemma as_opt_int_json: "as_opt_int k (opt_int_json x) = Inr x"
  by (cases x) (simp_all add: opt_int_json_def)

lemma as_opt_str_json: "as_opt_str k (opt_str_json x) = Inr x"
  by (cases x) (simp_all add: opt_str_json_def)

lemma metadata_round_trip:
  assumes "case publish_time v of None \<Rightarrow> True | Some t \<Rightarrow> valid_datetime t"
  shows "metadata_from_dict
           (JDict
             [(''aid'', JInt (aid v)),
              (''bvid'', JStr (bvid v)),
              (''cid'', JInt (cid v)),
              (''title'', JStr (title v)),
              (''keyword'', JStr (keyword v)),
              (''duration'', opt_int_json (duration v)),
              (''publish_time'',
                 (case publish_time v of
                    None \<Rightarrow> JNull
                  | Some t \<Rightarrow> JStr (isoformat t))),
              (''owner_name'', opt_str_json (owner_name v)),
              (''view_count'', opt_int_json (view_count v)),
              (''danmaku_count'', opt_int_json (danmaku_count v)),
              (''like_count'', opt_int_json (like_count v)),
              (''ranking_index'', opt_int_json (ranking_index v))]) = Inr v"
  using assms
  by (cases "publish_time v")
     (simp_all add: metadata_from_dict_def and_then_def py_get_def as_opt_int_json
       as_opt_str_json isoformat_not_Nil fromisoformat_isoformat)

lemma record_round_trip:
  assumes "valid_datetime (send_time r)"
  shows "record_from_dict
           (JDict
             [(''video_bvid'', JStr (video_bvid r)),
              (''video_cid'', JInt (video_cid r)),
              (''content'', JStr (content r)),
              (''appear_time'', JFloat (appear_time r)),
              (''send_time'', JStr (isoformat (send_time r))),
              (''mode'', JInt (mode r)),
              (''font_size'', JInt (font_size r)),
              (''font_color'', JInt (font_color r)),
              (''author_hash'', opt_str_json (author_hash r)),
              (''weight'', opt_int_json (weight r)),
              (''pool'', opt_int_json (pool r))]) = Inr r"
  using assms
  by (simp add: record_from_dict_def and_then_def py_get_def as_opt_int_json
      as_opt_str_json fromisoformat_isoformat)

lemma records_round_trip:
  assumes "list_all (\<lambda>r. valid_datetime (send_time r)) rs"
  shows "map_raising record_from_dict
           (map (\<lambda>record.
                   JDict
                     [(''video_bvid'', JStr (video_bvid record)),
                      (''video_cid'', JInt (video_cid record)),
                      (''content'', JStr (content record)),
                      (''appear_time'', JFloat (appear_time record)),
                      (''send_time'', JStr (isoformat (send_time record))),
                      (''mode'', JInt (mode record)),
                      (''font_size'', JInt (font_size record)),
                      (''font_color'', JInt (font_color record)),
                      (''author_hash'', opt_str_json (author_hash record)),
                      (''weight'', opt_int_json (weight record)),
                      (''pool'', opt_int_json (pool record))]) rs) = Inr rs"
  using assms
proof (induction rs)
  case Nil
  show ?case by simp
next
  case (Cons r rs)
  then show ?case
    by (simp add: record_round_trip and_then_def)
qed

lemma from_dict_to_dict:
  assumes "valid_bundle b"
  shows "from_dict (to_dict b) = Inr b"
proof -
  from assms
  have m: "case publish_time (video b) of None \<Rightarrow> True | Some t \<Rightarrow> valid_datetime t"
    and rs: "list_all (\<lambda>r. valid_datetime (send_time r)) (danmaku b)"
    by (simp_all add: valid_bundle_def)
  show ?thesis
    unfolding from_dict_def to_dict_def
    by (simp add: and_then_def metadata_round_trip [OF m] records_round_trip [OF rs])
qed

lemma valid_sample_bundle: "valid_bundle sample_bundle"
  by (simp add: sample_bundle_def valid_bundle_def valid_datetime_def days_in_month_def
      is_leap_def)



section \<open>The fetch client\<close>

lemma request_from_success:
  "attempt a = Inr r \<Longrightarrow>
   request_from cfg url params attempt a = (Inr r, attempt_events cfg url params)"
  by (subst request_from.simps) simp

lemma request_from_give_up:
  "attempt a = Inl e \<Longrightarrow> retry_attempts cfg \<le> int (Suc a) \<Longrightarrow>
   request_from cfg url params attempt a = (Inl e, attempt_events cfg url params)"
  by (subst request_from.simps) simp

lemma request_from_retry:
  "attempt a = Inl e \<Longrightarrow> \<not> retry_attempts cfg \<le> int (Suc a) \<Longrightarrow>
   request_from cfg url params attempt a =
     (fst (request_from cfg url params attempt (Suc a)),
      attempt_events cfg url params @ [BackoffSleep (3 / 2 * of_nat (Suc a))]
      @ snd (request_from cfg url params attempt (Suc a)))"
  by (subst request_from.simps) (simp add: split_beta)

lemma request_from_exhaust:
  assumes N: "retry_attempts cfg = int N"
    and fail: "\<forall>k<N. attempt k = Inl (exc k)"
  shows "a < N \<Longrightarrow> d = N - 1 - a \<Longrightarrow>
    request_from cfg url params attempt a =
      (Inl (exc (N - 1)),
       concat (map (\<lambda>k. attempt_events cfg url params @ [BackoffSleep (3 / 2 * of_nat (Suc k))])
                 [a..<N - 1])
       @ attempt_events cfg url params)"
proof (induction d arbitrary: a)
  case 0
  then have a: "a = N - 1" by simp
  with 0 fail have f: "attempt a = Inl (exc (N - 1))" by simp
  from a 0 N have "retry_attempts cfg \<le> int (Suc a)" by simp
  from request_from_give_up [where attempt = attempt and a = a, OF f this] show ?case
    by (simp add: a)
next
  case (Suc d)
  then have lt: "a < N - 1" and sa: "Suc a < N" and d: "d = N - 1 - Suc a" by simp_all
  from fail Suc.prems have f: "attempt a = Inl (exc a)" by simp
  from lt N have more: "\<not> retry_attempts cfg \<le> int (Suc a)" by simp
  have upt: "[a..<N - 1] = a # [Suc a..<N - 1]"
    using lt by (simp add: upt_conv_Cons)
  show ?case
    unfolding request_from_retry [where attempt = attempt and a = a, OF f more]
      Suc.IH [OF sa d] upt
    by simp
qed

lemma backoffs_append: "backoffs (xs @ ys) = backoffs xs @ backoffs ys"
  by (simp add: backoffs_def)

lemma http_gets_append: "http_gets (xs @ ys) = http_gets xs @ http_gets ys"
  by (simp add: http_gets_def)

lemma backoffs_attempt_events: "backoffs (attempt_events cfg url params) = []"
  by (simp add: backoffs_def attempt_events_def)

lemma http_gets_attempt_events:
  "http_gets (attempt_events cfg url params) = [HttpGet url params]"
  by (simp add: http_gets_def attempt_events_def)

lemma backoffs_rounds:
  "backoffs (concat (map (\<lambda>k. attempt_events cfg url params @ [BackoffSleep (f k)]) ks))
   = map f ks"
  by (induction ks) (simp_all add: backoffs_def attempt_events_def)

lemma http_gets_rounds:
  "http_gets (concat (map (\<lambda>k. attempt_events cfg url params @ [BackoffSleep (f k)]) ks))
   = replicate (length ks) (HttpGet url params)"
  by (induction ks) (simp_all add: http_gets_def attempt_events_def)

lemma sum_backoffs:
  "sum_list (map (\<lambda>k. 3 / 2 * (of_nat (Suc k) :: rat)) [0..<n]) = 3 * of_nat n * (of_nat n + 1) / 4"
  by (induction n) (simp_all add: field_simps)

text \<open>
  C4. With \<open>retry_attempts = N\<close>, \<open>N \<ge> 1\<close>, and every HTTP attempt failing, \<open>_request\<close>
  makes exactly \<open>N\<close> attempts, sleeps \<open>1.5 \<times> k\<close> seconds after the \<open>k\<close>-th failed attempt
  for each \<open>k < N\<close> and at no other point besides the pacing sleeps, and re-raises the
  failure of the \<open>N\<close>-th attempt. The backoff adds up to \<open>3 (N - 1) N / 4\<close> seconds, which
  is 4.5 for \<open>N = 3\<close>.
\<close>

theorem request_retry_exhaustion:
  assumes "1 \<le> N" and "retry_attempts cfg = int N"
    and "\<forall>k<N. attempt k = Inl (exc k)"
  shows "fst (request cfg url params attempt) = Inl (exc (N - 1))
    \<and> snd (request cfg url params attempt) =
        concat (map (\<lambda>k. attempt_events cfg url params @ [BackoffSleep (3 / 2 * of_nat (Suc k))])
                 [0..<N - 1])
        @ attempt_events cfg url params
    \<and> http_gets (snd (request cfg url params attempt)) = replicate N (HttpGet url params)
    \<and> backoffs (snd (request cfg url params attempt)) = map (\<lambda>k. 3 / 2 * of_nat (Suc k)) [0..<N - 1]
    \<and> sum_list (backoffs (snd (request cfg url params attempt))) = 3 * of_nat (N - 1) * of_nat N / 4"
proof -
  from assms(1) have a: "0 < N" by simp
  have r: "request cfg url params attempt =
      (Inl (exc (N - 1)),
       concat (map (\<lambda>k. attempt_events cfg url params @ [BackoffSleep (3 / 2 * of_nat (Suc k))])
                 [0..<N - 1])
       @ attempt_events cfg url params)"
    unfolding request_def
    by (rule request_from_exhaust [OF assms(2) assms(3) a]) simp
  have "replicate (N - 1) (HttpGet url params) @ [HttpGet url params] = replicate N (HttpGet url params)"
    using a by (cases N) (simp_all add: replicate_append_same)
  then have g: "http_gets (snd (request cfg url params attempt)) = replicate N (HttpGet url params)"
    unfolding r by (simp add: http_gets_append http_gets_rounds http_gets_attempt_events)
  have b: "backoffs (snd (request cfg url params attempt)) = map (\<lambda>k. 3 / 2 * of_nat (Suc k)) [0..<N - 1]"
    unfolding r by (simp add: backoffs_append backoffs_rounds backoffs_attempt_events)
  have "(of_nat (N - 1) :: rat) + 1 = of_nat N"
    using a by (cases N) simp_all
  then have s: "sum_list (backoffs (snd (request cfg url params attempt))) = 3 * of_nat (N - 1) * of_nat N / 4"
    unfolding b sum_backoffs by simp
  from r g b s show ?thesis by simp
qed

theorem request_retry_exhaustion_witness:
  "fst (request sample_config VIEW_API [] (\<lambda>k. Inl (TransportError ''timeout'') :: error + view_payload doc))
     = Inl (TransportError ''timeout'')
   \<and> snd (request sample_config VIEW_API [] (\<lambda>k. Inl (TransportError ''timeout'') :: error + view_payload doc))
     = [PacingSleep (2 / 5), HttpGet VIEW_API [], BackoffSleep (3 / 2),
        PacingSleep (2 / 5), HttpGet VIEW_API [], BackoffSleep 3,
        PacingSleep (2 / 5), HttpGet VIEW_API []]
   \<and> sum_list (backoffs (snd (request sample_config VIEW_API []
         (\<lambda>k. Inl (TransportError ''timeout'') :: error + view_payload doc)))) = 9 / 2"
  using request_retry_exhaustion [of 3 sample_config "\<lambda>k. Inl (TransportError ''timeout'') :: error + view_payload doc"
      "\<lambda>k. TransportError ''timeout''" VIEW_API "[]"]
  by (simp add: sample_config_def attempt_events_def upt_rec numeral_3_eq_3 backoffs_def)

section \<open>Pagination of the search\<close>

lemma search_loop_quota_met:
  "\<not> int (length results) < pk \<Longrightarrow>
   search_loop cfg net kw pk results page = (Inr (py_prefix pk results), [])"
  by (subst search_loop.simps) simp

lemma search_loop_error:
  "int (length results) < pk \<Longrightarrow> fst (search_page cfg net kw page) = Inl e \<Longrightarrow>
   search_loop cfg net kw pk results page = (Inl e, snd (search_page cfg net kw page))"
  by (subst search_loop.simps) (auto split: prod.splits)

lemma search_loop_empty_page:
  "int (length results) < pk \<Longrightarrow> fst (search_page cfg net kw page) = Inr payload \<Longrightarrow>
   search_items payload = [] \<Longrightarrow>
   search_loop cfg net kw pk results page
     = (Inr (py_prefix pk results), snd (search_page cfg net kw page))"
  by (subst search_loop.simps) (auto split: prod.splits)

lemma search_loop_page_limit:
  "int (length results) < pk \<Longrightarrow> fst (search_page cfg net kw page) = Inr payload \<Longrightarrow>
   search_items payload \<noteq> [] \<Longrightarrow> page_limit_hit cfg (Suc page) \<Longrightarrow>
   search_loop cfg net kw pk results page
     = (Inr (py_prefix pk (append_items cfg pk results (search_items payload))),
        snd (search_page cfg net kw page))"
  by (subst search_loop.simps) (auto split: prod.splits)

lemma search_loop_next_page:
  "int (length results) < pk \<Longrightarrow> fst (search_page cfg net kw page) = Inr payload \<Longrightarrow>
   search_items payload \<noteq> [] \<Longrightarrow> \<not> page_limit_hit cfg (Suc page) \<Longrightarrow>
   search_loop cfg net kw pk results page
     = (fst (search_loop cfg net kw pk (append_items cfg pk results (search_items payload))
               (Suc page)),
        snd (search_page cfg net kw page)
        @ snd (search_loop cfg net kw pk (append_items cfg pk results (search_items payload))
                 (Suc page)))"
  by (subst search_loop.simps) (auto split: prod.splits)

lemma length_py_prefix: "0 \<le> n \<Longrightarrow> int (length (py_prefix n xs)) \<le> n"
  by (simp add: py_prefix_def)

lemma search_loop_bound:
  "0 \<le> pk \<Longrightarrow> fst (search_loop cfg net kw pk results page) = Inr rs \<Longrightarrow>
   int (length rs) \<le> pk"
proof (induction cfg net kw pk results page rule: search_loop.induct)
  case (1 cfg net kw pk results page)
  show ?case
  proof (cases "int (length results) < pk")
    case False
    with "1.prems" show ?thesis
      by (auto simp: search_loop_quota_met length_py_prefix)
  next
    case quota: True
    show ?thesis
    proof (cases "fst (search_page cfg net kw page)")
      case (Inl e)
      with quota "1.prems" show ?thesis by (simp add: search_loop_error)
    next
      case (Inr payload)
      show ?thesis
      proof (cases "search_items payload = []")
        case True
        with quota Inr "1.prems" show ?thesis
          by (auto simp: search_loop_empty_page length_py_prefix)
      next
        case items: False
        show ?thesis
        proof (cases "page_limit_hit cfg (Suc page)")
          case True
          with quota Inr items "1.prems" show ?thesis
            by (auto simp: search_loop_page_limit length_py_prefix)
        next
          case False
          have eq: "search_page cfg net kw page = (Inr payload, snd (search_page cfg net kw page))"
            using Inr by (simp add: prod_eq_iff)
          from quota Inr items False "1.prems"
          have "fst (search_loop cfg net kw pk
                       (append_items cfg pk results (search_items payload)) (Suc page)) = Inr rs"
            by (simp add: search_loop_next_page)
          with "1.IH" [OF _ eq [symmetric] refl items False] quota "1.prems"(1)
          show ?thesis by simp
        qed
      qed
    qed
  qed
qed


lemma page_items_success:
  "fst (search_page cfg net kw p) = Inr payload \<Longrightarrow> page_items cfg net kw p = search_items payload"
  by (simp add: page_items_def)

lemma search_loop_run:
  assumes ok: "\<forall>p. 1 \<le> p \<and> p \<le> n \<longrightarrow> (\<exists>payload. fst (search_page cfg net kw p) = Inr payload)"
    and stop: "stops_after cfg net kw pk n"
    and go: "\<forall>k. 1 \<le> k \<and> k < n \<longrightarrow> \<not> stops_after cfg net kw pk k"
  shows "d = n - page \<Longrightarrow> 1 \<le> page \<Longrightarrow> page \<le> n \<Longrightarrow>
    int (length (results_after cfg net kw pk (page - 1))) < pk \<Longrightarrow>
    search_loop cfg net kw pk (results_after cfg net kw pk (page - 1)) page =
      (Inr (py_prefix pk (results_after cfg net kw pk n)),
       concat (map (\<lambda>p. snd (search_page cfg net kw p)) [page..<Suc n]))"
proof (induction d arbitrary: page)
  case 0
  then have page: "page = n" by simp
  from ok 0 page obtain payload where p: "fst (search_page cfg net kw n) = Inr payload"
    by auto
  have items: "page_items cfg net kw n = search_items payload"
    by (rule page_items_success [OF p])
  from 0 page obtain m where n: "n = Suc m" by (cases n) auto
  have after: "results_after cfg net kw pk n
      = append_items cfg pk (results_after cfg net kw pk (n - 1)) (search_items payload)"
    using items by (simp add: n)
  have quota: "int (length (results_after cfg net kw pk (n - 1))) < pk"
    using 0 page by simp
  have tr: "concat (map (\<lambda>p. snd (search_page cfg net kw p)) [n..<Suc n])
      = snd (search_page cfg net kw n)"
    by simp
  show ?case
  proof (cases "search_items payload = []")
    case True
    then have "results_after cfg net kw pk n = results_after cfg net kw pk (n - 1)"
      by (simp add: after)
    with search_loop_empty_page [OF quota p True] show ?thesis
      unfolding page tr by simp
  next
    case nonempty: False
    show ?thesis
    proof (cases "page_limit_hit cfg (Suc n)")
      case True
      from search_loop_page_limit [OF quota p nonempty True] show ?thesis
        unfolding page tr after by simp
    next
      case False
      with stop nonempty items
      have met: "\<not> int (length (results_after cfg net kw pk n)) < pk"
        by (simp add: stops_after_def)
      from search_loop_next_page [OF quota p nonempty False]
        search_loop_quota_met [OF met, of cfg net kw "Suc n"]
      show ?thesis
        unfolding page tr after by simp
    qed
  qed
next
  case (Suc d)
  then have lt: "page < n" and d: "d = n - Suc page" by simp_all
  from ok Suc.prems obtain payload where p: "fst (search_page cfg net kw page) = Inr payload"
    by auto
  have items: "page_items cfg net kw page = search_items payload"
    by (rule page_items_success [OF p])
  from Suc.prems obtain m where page: "page = Suc m" by (cases page) auto
  have after: "results_after cfg net kw pk page
      = append_items cfg pk (results_after cfg net kw pk (page - 1)) (search_items payload)"
    using items by (simp add: page)
  from go Suc.prems lt have ns: "\<not> stops_after cfg net kw pk page" by simp
  then have nonempty: "search_items payload \<noteq> []"
    and unmet: "int (length (results_after cfg net kw pk page)) < pk"
    and nolimit: "\<not> page_limit_hit cfg (Suc page)"
    using items by (simp_all add: stops_after_def)
  have upt: "[page..<Suc n] = page # [Suc page..<Suc n]"
    using lt by (simp add: upt_conv_Cons)
  have ih: "search_loop cfg net kw pk (results_after cfg net kw pk page) (Suc page) =
      (Inr (py_prefix pk (results_after cfg net kw pk n)),
       concat (map (\<lambda>p. snd (search_page cfg net kw p)) [Suc page..<Suc n]))"
    using Suc.IH [of "Suc page"] d lt unmet by simp
  from search_loop_next_page [OF Suc.prems(4) p nonempty nolimit]
  show ?case
    unfolding after [symmetric] ih upt by simp
qed

text \<open>
  C7. \<open>_search_keyword\<close> requests the pages 1, 2, ... of a keyword in order and stops
  after the first page \<open>n\<close> at which the page is empty, the per-keyword share is met or
  the page ceiling is hit; it returns the results accumulated up to that page, cut to the
  share, so never more than the share. In particular an empty second page ends the
  pagination after page 2 with the quota unmet. The share is at least 1, as \<open>crawl\<close>
  computes it, and the pages up to \<open>n\<close> are fetched without an exception.
\<close>

theorem search_keyword_pagination:
  assumes "1 \<le> pk" and "1 \<le> n"
    and "\<forall>p. 1 \<le> p \<and> p \<le> n \<longrightarrow> (\<exists>payload. fst (search_page cfg net kw p) = Inr payload)"
    and "stops_after cfg net kw pk n"
    and "\<forall>k. 1 \<le> k \<and> k < n \<longrightarrow> \<not> stops_after cfg net kw pk k"
  shows "search_keyword cfg net kw pk =
           (Inr (py_prefix pk (results_after cfg net kw pk n)),
            concat (map (\<lambda>p. snd (search_page cfg net kw p)) [1..<Suc n]))
         \<and> int (length (py_prefix pk (results_after cfg net kw pk n))) \<le> pk"
proof -
  have "search_loop cfg net kw pk (results_after cfg net kw pk (1 - 1)) 1 =
      (Inr (py_prefix pk (results_after cfg net kw pk n)),
       concat (map (\<lambda>p. snd (search_page cfg net kw p)) [1..<Suc n]))"
    using assms(1,2) by (intro search_loop_run [OF assms(3,4,5)]) simp_all
  then show ?thesis
    using assms(1) by (simp add: search_keyword_def length_py_prefix)
qed


lemma sample_config_fields:
  "max_videos sample_config = 360" "pages_per_keyword sample_config = None"
  "sleep_interval sample_config = 2 / 5" "search_order sample_config = ''totalrank''"
  "retry_attempts sample_config = 3" "enable_cache sample_config"
  "keyword_list sample_config = [''LLM'']" "concurrent_requests sample_config = 2"
  by (simp_all add: sample_config_def)

lemma sample_search_page_1:
  "search_page sample_config sample_network ''LLM'' (Suc 0) =
     (Inr \<lparr>payload_data =
            Some \<lparr>data_result = Some [\<lparr>result_bvid = Some ''BV1''\<rparr>,
                                      \<lparr>result_bvid = Some ''BV2''\<rparr>]\<rparr>\<rparr>,
      [PacingSleep (2 / 5), HttpGet SEARCH_API (search_params ''LLM'' (Suc 0) ''totalrank'')])"
  by (simp add: search_page_def request_json_def request_def request_from_success
      sample_network_def sample_config_fields attempt_events_def)

lemma sample_search_page_2:
  "search_page sample_config sample_network ''LLM'' (Suc (Suc 0)) =
     (Inr \<lparr>payload_data = Some \<lparr>data_result = Some []\<rparr>\<rparr>,
      [PacingSleep (2 / 5),
       HttpGet SEARCH_API (search_params ''LLM'' (Suc (Suc 0)) ''totalrank'')])"
  by (simp add: search_page_def request_json_def request_def request_from_success
      sample_network_def sample_config_fields attempt_events_def)

theorem search_keyword_pagination_witness:
  "search_keyword sample_config sample_network ''LLM'' 5 =
     (Inr [\<lparr>result_bvid = Some ''BV1''\<rparr>, \<lparr>result_bvid = Some ''BV2''\<rparr>],
      [PacingSleep (2 / 5), HttpGet SEARCH_API (search_params ''LLM'' 1 ''totalrank''),
       PacingSleep (2 / 5), HttpGet SEARCH_API (search_params ''LLM'' 2 ''totalrank'')])"
proof -
  have p1: "page_items sample_config sample_network ''LLM'' (Suc 0) =
      [\<lparr>result_bvid = Some ''BV1''\<rparr>, \<lparr>result_bvid = Some ''BV2''\<rparr>]"
    by (simp add: page_items_def sample_search_page_1 search_items_def)
  have p2: "page_items sample_config sample_network ''LLM'' (Suc (Suc 0)) = []"
    by (simp add: page_items_def sample_search_page_2 search_items_def)
  have r1: "results_after sample_config sample_network ''LLM'' 5 (Suc 0) =
      [\<lparr>result_bvid = Some ''BV1''\<rparr>, \<lparr>result_bvid = Some ''BV2''\<rparr>]"
    by (simp add: p1 sample_config_fields)
  have r2: "results_after sample_config sample_network ''LLM'' 5 (Suc (Suc 0)) =
      [\<lparr>result_bvid = Some ''BV1''\<rparr>, \<lparr>result_bvid = Some ''BV2''\<rparr>]"
    using r1 by (simp add: p2)
  have ok: "\<forall>p. 1 \<le> p \<and> p \<le> Suc (Suc 0) \<longrightarrow>
      (\<exists>payload. fst (search_page sample_config sample_network ''LLM'' p) = Inr payload)"
  proof (intro allI impI)
    fix p :: nat
    assume "1 \<le> p \<and> p \<le> Suc (Suc 0)"
    then have "p = Suc 0 \<or> p = Suc (Suc 0)" by auto
    then show "\<exists>payload. fst (search_page sample_config sample_network ''LLM'' p) = Inr payload"
      using sample_search_page_1 sample_search_page_2 by auto
  qed
  have stop: "stops_after sample_config sample_network ''LLM'' 5 (Suc (Suc 0))"
    unfolding stops_after_def p2 by simp
  have go: "\<forall>k. 1 \<le> k \<and> k < Suc (Suc 0) \<longrightarrow>
      \<not> stops_after sample_config sample_network ''LLM'' 5 k"
  proof (intro allI impI)
    fix k :: nat
    assume "1 \<le> k \<and> k < Suc (Suc 0)"
    then have k: "k = Suc 0" by auto
    show "\<not> stops_after sample_config sample_network ''LLM'' 5 k"
      unfolding k stops_after_def r1 p1
      by (simp add: page_limit_hit_def sample_config_fields)
  qed
  have upt: "[1..<Suc (Suc (Suc 0))] = [Suc 0, Suc (Suc 0)]"
    by (simp add: upt_rec)
  from search_keyword_pagination
    [of 5 "Suc (Suc 0)" sample_config sample_network "''LLM''", OF _ _ ok stop go]
  show ?thesis
    unfolding r2 upt
    by (simp add: sample_search_page_1 sample_search_page_2 py_prefix_def numeral_2_eq_2)
qed

section \<open>Discovery: deduplication and rank indices\<close>

lemma schedule_results_fold:
  "schedule_results kw results st = fold (\<lambda>(k, r). schedule_result k r) (map (Pair kw) results) st"
  by (simp add: schedule_results_def fold_map comp_def)

lemma schedule_all_discoveries:
  "schedule_all found st = fold (\<lambda>(kw, r). schedule_result kw r) (discoveries found) st"
proof (induction found arbitrary: st)
  case Nil
  show ?case by (simp add: schedule_all_def discoveries_def)
next
  case (Cons x found)
  obtain kw results where x: "x = (kw, results)" by (cases x)
  have "schedule_all (x # found) st = schedule_all found (schedule_results kw results st)"
    by (simp add: schedule_all_def x)
  also have "\<dots> = fold (\<lambda>(kw, r). schedule_result kw r) (discoveries found)
                     (schedule_results kw results st)"
    by (rule Cons.IH)
  also have "\<dots> = fold (\<lambda>(kw, r). schedule_result kw r) (discoveries (x # found)) st"
    by (simp add: discoveries_def x schedule_results_fold)
  finally show ?case .
qed

lemma first_with_bvid_snoc:
  "first_with_bvid bv (ds @ [(kw, r)]) =
     (case first_with_bvid bv ds of
        Some x \<Rightarrow> Some x
      | None \<Rightarrow> if result_bvid r = Some bv then Some (kw, r) else None)"
  by (induction ds) (auto simp: first_with_bvid_def)

lemma first_with_bvid_mem:
  "first_with_bvid bv ds = Some x \<Longrightarrow> x \<in> set ds \<and> result_bvid (snd x) = Some bv"
  by (auto simp: first_with_bvid_def find_Some_iff split_beta)

lemma mem_discovered_bvids:
  "(kw, r) \<in> set ds \<Longrightarrow> result_bvid r = Some bv \<Longrightarrow> bv \<noteq> [] \<Longrightarrow>
   bv \<in> set (discovered_bvids ds)"
  by (force simp: discovered_bvids_def true_bvid_def)

lemma first_with_bvid_discovered:
  assumes "first_with_bvid bv ds = Some x" and "bv \<noteq> []"
  shows "bv \<in> set (discovered_bvids ds)"
proof -
  obtain kw r where x: "x = (kw, r)" by (cases x)
  from first_with_bvid_mem [OF assms(1)] have "(kw, r) \<in> set ds" "result_bvid r = Some bv"
    by (simp_all add: x)
  then show ?thesis using assms(2) by (rule mem_discovered_bvids)
qed

lemma discovered_bvids_snoc:
  "discovered_bvids (ds @ [(kw, r)]) = discovered_bvids ds @ true_bvid r"
  by (simp add: discovered_bvids_def)

lemma schedule_invariant_empty: "schedule_invariant [] empty_schedule"
  by (simp add: schedule_invariant_def empty_schedule_def discovered_bvids_def)

lemma schedule_invariantD:
  assumes "schedule_invariant ds st"
  shows "seen_bvids st = set (discovered_bvids ds)"
    and "sched_ranking_index st = int (length (sched_tasks st))"
    and "map task_ranking_index (sched_tasks st) = map int [1..<Suc (length (sched_tasks st))]"
    and "map task_bvid (sched_tasks st) = rev (remdups (rev (discovered_bvids ds)))"
    and "\<forall>t\<in>set (sched_tasks st).
            task_bvid t \<noteq> [] \<and> result_bvid (task_item t) = Some (task_bvid t)
            \<and> first_with_bvid (task_bvid t) ds = Some (task_keyword t, task_item t)"
  using assms unfolding schedule_invariant_def by blast+

lemma schedule_invariant_skip:
  assumes inv: "schedule_invariant ds st"
    and old: "true_bvid r = [] \<or> (\<exists>bv. true_bvid r = [bv] \<and> bv \<in> seen_bvids st)"
    and same: "schedule_result kw r st = st"
  shows "schedule_invariant (ds @ [(kw, r)]) (schedule_result kw r st)"
proof -
  note seen = schedule_invariantD(1) [OF inv]
    and rank = schedule_invariantD(2) [OF inv]
    and ranks = schedule_invariantD(3) [OF inv]
    and order = schedule_invariantD(4) [OF inv]
    and firsts = schedule_invariantD(5) [OF inv]
  have tb: "set (true_bvid r) \<subseteq> seen_bvids st"
    using old by auto
  have "set (discovered_bvids (ds @ [(kw, r)])) = set (discovered_bvids ds) \<union> set (true_bvid r)"
    by (simp add: discovered_bvids_snoc)
  also have "\<dots> = seen_bvids st \<union> set (true_bvid r)"
    by (simp only: seen)
  also have "\<dots> = seen_bvids st"
    using tb by blast
  finally have a: "seen_bvids st = set (discovered_bvids (ds @ [(kw, r)]))" ..
  have "rev (remdups (rev (discovered_bvids (ds @ [(kw, r)]))))
      = rev (remdups (rev (discovered_bvids ds)))"
  proof (cases "true_bvid r")
    case Nil
    then show ?thesis by (simp add: discovered_bvids_snoc)
  next
    case (Cons bv bvs)
    with old have "true_bvid r = [bv]" and "bv \<in> seen_bvids st" by auto
    then show ?thesis by (simp add: discovered_bvids_snoc seen)
  qed
  with order
  have d: "map task_bvid (sched_tasks st) = rev (remdups (rev (discovered_bvids (ds @ [(kw, r)]))))"
    by simp
  have e: "\<forall>u\<in>set (sched_tasks st).
      task_bvid u \<noteq> [] \<and> result_bvid (task_item u) = Some (task_bvid u)
      \<and> first_with_bvid (task_bvid u) (ds @ [(kw, r)]) = Some (task_keyword u, task_item u)"
  proof
    fix u
    assume "u \<in> set (sched_tasks st)"
    with firsts
    have "task_bvid u \<noteq> []" "result_bvid (task_item u) = Some (task_bvid u)"
      "first_with_bvid (task_bvid u) ds = Some (task_keyword u, task_item u)"
      by blast+
    then show "task_bvid u \<noteq> [] \<and> result_bvid (task_item u) = Some (task_bvid u)
      \<and> first_with_bvid (task_bvid u) (ds @ [(kw, r)]) = Some (task_keyword u, task_item u)"
      by (simp add: first_with_bvid_snoc)
  qed
  from a rank ranks d e show ?thesis
    unfolding same schedule_invariant_def by blast
qed

lemma schedule_invariant_new:
  assumes inv: "schedule_invariant ds st" and bv: "result_bvid r = Some bv" "bv \<noteq> []"
    and new: "bv \<notin> seen_bvids st"
  shows "schedule_invariant (ds @ [(kw, r)]) (schedule_result kw r st)"
proof -
  define t where "t = \<lparr>task_item = r, task_keyword = kw,
                        task_ranking_index = sched_ranking_index st + 1\<rparr>"
  define st' where "st' = schedule_result kw r st"
  have tasks': "sched_tasks st' = sched_tasks st @ [t]"
    and rank': "sched_ranking_index st' = sched_ranking_index st + 1"
    and seen': "seen_bvids st' = insert bv (seen_bvids st)"
    using bv new by (simp_all add: st'_def schedule_result_def t_def)
  note seen = schedule_invariantD(1) [OF inv]
    and rank = schedule_invariantD(2) [OF inv]
    and ranks = schedule_invariantD(3) [OF inv]
    and order = schedule_invariantD(4) [OF inv]
    and firsts = schedule_invariantD(5) [OF inv]
  have tb: "true_bvid r = [bv]" using bv by (simp add: true_bvid_def)
  have tbv: "task_bvid t = bv" using bv by (simp add: task_bvid_def t_def)
  have fresh: "bv \<notin> set (discovered_bvids ds)"
    using new unfolding seen .
  have none: "first_with_bvid bv ds = None"
  proof (cases "first_with_bvid bv ds")
    case None
    then show ?thesis .
  next
    case (Some x)
    from first_with_bvid_discovered [OF Some bv(2)] fresh show ?thesis by blast
  qed
  have "set (discovered_bvids (ds @ [(kw, r)])) = insert bv (set (discovered_bvids ds))"
    by (simp add: discovered_bvids_snoc tb)
  then have a: "seen_bvids st' = set (discovered_bvids (ds @ [(kw, r)]))"
    by (simp only: seen' seen)
  have b: "sched_ranking_index st' = int (length (sched_tasks st'))"
    by (simp add: tasks' rank' rank)
  have "task_ranking_index t = int (Suc (length (sched_tasks st)))"
    by (simp add: t_def rank)
  then have c: "map task_ranking_index (sched_tasks st')
      = map int [1..<Suc (length (sched_tasks st'))]"
    by (simp add: tasks' ranks)
  have "rev (remdups (rev (discovered_bvids (ds @ [(kw, r)]))))
      = rev (remdups (rev (discovered_bvids ds))) @ [bv]"
    using fresh by (simp add: discovered_bvids_snoc tb)
  then have d: "map task_bvid (sched_tasks st')
      = rev (remdups (rev (discovered_bvids (ds @ [(kw, r)]))))"
    by (simp add: tasks' order tbv)
  have e: "\<forall>u\<in>set (sched_tasks st').
      task_bvid u \<noteq> [] \<and> result_bvid (task_item u) = Some (task_bvid u)
      \<and> first_with_bvid (task_bvid u) (ds @ [(kw, r)]) = Some (task_keyword u, task_item u)"
  proof
    fix u
    assume "u \<in> set (sched_tasks st')"
    then have "u = t \<or> u \<in> set (sched_tasks st)" by (auto simp: tasks')
    then show "task_bvid u \<noteq> [] \<and> result_bvid (task_item u) = Some (task_bvid u)
      \<and> first_with_bvid (task_bvid u) (ds @ [(kw, r)]) = Some (task_keyword u, task_item u)"
    proof
      assume u: "u = t"
      have "task_item t = r" "task_keyword t = kw" by (simp_all add: t_def)
      with bv show ?thesis
        unfolding u tbv by (simp add: first_with_bvid_snoc none)
    next
      assume "u \<in> set (sched_tasks st)"
      with firsts
      have "task_bvid u \<noteq> []" "result_bvid (task_item u) = Some (task_bvid u)"
        "first_with_bvid (task_bvid u) ds = Some (task_keyword u, task_item u)"
        by blast+
      then show ?thesis by (simp add: first_with_bvid_snoc)
    qed
  qed
  from a b c d e show ?thesis
    unfolding st'_def [symmetric] schedule_invariant_def by blast
qed

lemma schedule_invariant_step:
  assumes inv: "schedule_invariant ds st"
  shows "schedule_invariant (ds @ [(kw, r)]) (schedule_result kw r st)"
proof (cases "result_bvid r")
  case None
  then have "true_bvid r = []" and same: "schedule_result kw r st = st"
    by (simp_all add: true_bvid_def schedule_result_def)
  then have "true_bvid r = [] \<or> (\<exists>bv. true_bvid r = [bv] \<and> bv \<in> seen_bvids st)"
    by simp
  from schedule_invariant_skip [OF inv this same] show ?thesis .
next
  case (Some bv)
  show ?thesis
  proof (cases "bv = [] \<or> bv \<in> seen_bvids st")
    case True
    with Some have old: "true_bvid r = [] \<or> (\<exists>bv. true_bvid r = [bv] \<and> bv \<in> seen_bvids st)"
      and same: "schedule_result kw r st = st"
      by (auto simp: true_bvid_def schedule_result_def)
    from schedule_invariant_skip [OF inv old same] show ?thesis .
  next
    case False
    then have "bv \<noteq> []" "bv \<notin> seen_bvids st" by simp_all
    from schedule_invariant_new [OF inv Some this] show ?thesis .
  qed
qed

lemma schedule_invariant_fold:
  "schedule_invariant ds (fold (\<lambda>(kw, r). schedule_result kw r) ds empty_schedule)"
proof (induction ds rule: rev_induct)
  case Nil
  show ?case by (simp add: schedule_invariant_empty)
next
  case (snoc x ds)
  obtain kw r where x: "x = (kw, r)" by (cases x)
  from schedule_invariant_step [OF snoc.IH, of kw r] show ?case
    by (simp add: x)
qed

lemma schedule_all_invariant:
  "schedule_invariant (discoveries found) (schedule_all found empty_schedule)"
  by (simp add: schedule_all_discoveries schedule_invariant_fold)


lemma crawl_keywords_schedule_all:
  assumes "\<forall>kw\<in>set kws. fst (search_keyword cfg net kw pk) = Inr (found kw)"
  shows "fst (crawl_keywords cfg net pk kws st)
         = Inr (schedule_all (map (\<lambda>kw. (kw, found kw)) kws) st)"
  using assms
proof (induction kws arbitrary: st)
  case Nil
  show ?case by (simp add: schedule_all_def)
next
  case (Cons kw kws)
  from Cons.prems have s: "fst (search_keyword cfg net kw pk) = Inr (found kw)"
    and rest: "\<forall>kw\<in>set kws. fst (search_keyword cfg net kw pk) = Inr (found kw)"
    by simp_all
  have "schedule_all (map (\<lambda>kw. (kw, found kw)) (kw # kws)) st
      = schedule_all (map (\<lambda>kw. (kw, found kw)) kws) (schedule_results kw (found kw) st)"
    by (simp add: schedule_all_def)
  with Cons.IH [OF rest, of "schedule_results kw (found kw) st"] s show ?case
    by (auto split: prod.splits)
qed

lemma distinct_first_occurrences: "distinct (rev (remdups (rev xs)))"
  by simp

text \<open>
  C2. Whatever the keywords and whatever their search results, \<open>crawl\<close> schedules one
  fetch unit for each distinct true short id and no other, in the order of first
  discovery; the unit carries the first result with that id and the keyword under which
  that result was found; the rank indices of the units are 1, 2, ... in that order, each
  assigned once.
\<close>

theorem crawl_discovery:
  assumes "\<forall>kw\<in>set kws. fst (search_keyword cfg net kw pk) = Inr (found kw)"
  shows "\<exists>st. fst (crawl_keywords cfg net pk kws empty_schedule) = Inr st
    \<and> map task_bvid (sched_tasks st)
        = rev (remdups (rev (discovered_bvids (discoveries (map (\<lambda>kw. (kw, found kw)) kws)))))
    \<and> distinct (map task_bvid (sched_tasks st))
    \<and> map task_ranking_index (sched_tasks st) = map int [1..<Suc (length (sched_tasks st))]
    \<and> (\<forall>t\<in>set (sched_tasks st).
          task_bvid t \<noteq> [] \<and> result_bvid (task_item t) = Some (task_bvid t)
          \<and> first_with_bvid (task_bvid t) (discoveries (map (\<lambda>kw. (kw, found kw)) kws))
              = Some (task_keyword t, task_item t))"
proof -
  define st where "st = schedule_all (map (\<lambda>kw. (kw, found kw)) kws) empty_schedule"
  have inv: "schedule_invariant (discoveries (map (\<lambda>kw. (kw, found kw)) kws)) st"
    unfolding st_def by (rule schedule_all_invariant)
  have run: "fst (crawl_keywords cfg net pk kws empty_schedule) = Inr st"
    unfolding st_def by (rule crawl_keywords_schedule_all [OF assms])
  note order = schedule_invariantD(4) [OF inv]
  have "distinct (map task_bvid (sched_tasks st))"
    unfolding order by (rule distinct_first_occurrences)
  with run order schedule_invariantD(3) [OF inv] schedule_invariantD(5) [OF inv]
  show ?thesis by blast
qed

lemma sample_search_keyword:
  "fst (search_keyword sample_config sample_network kw 5) =
     Inr [\<lparr>result_bvid = Some ''BV1''\<rparr>, \<lparr>result_bvid = Some ''BV2''\<rparr>]"
proof -
  have p1: "fst (search_page sample_config sample_network kw (Suc 0)) =
      Inr \<lparr>payload_data =
            Some \<lparr>data_result = Some [\<lparr>result_bvid = Some ''BV1''\<rparr>,
                                      \<lparr>result_bvid = Some ''BV2''\<rparr>]\<rparr>\<rparr>"
    by (simp add: search_page_def request_json_def request_def request_from_success
        sample_network_def)
  have p2: "fst (search_page sample_config sample_network kw (Suc (Suc 0))) =
      Inr \<lparr>payload_data = Some \<lparr>data_result = Some []\<rparr>\<rparr>"
    by (simp add: search_page_def request_json_def request_def request_from_success
        sample_network_def)
  have step1: "fst (search_loop sample_config sample_network kw 5 [] (Suc 0)) =
      fst (search_loop sample_config sample_network kw 5
             [\<lparr>result_bvid = Some ''BV1''\<rparr>, \<lparr>result_bvid = Some ''BV2''\<rparr>] (Suc (Suc 0)))"
    using search_loop_next_page [where cfg = sample_config and net = sample_network
        and kw = kw and pk = 5 and results = "[]" and page = "Suc 0", OF _ p1]
    by (simp add: search_items_def page_limit_hit_def sample_config_fields)
  have step2: "fst (search_loop sample_config sample_network kw 5
             [\<lparr>result_bvid = Some ''BV1''\<rparr>, \<lparr>result_bvid = Some ''BV2''\<rparr>] (Suc (Suc 0))) =
      Inr [\<lparr>result_bvid = Some ''BV1''\<rparr>, \<lparr>result_bvid = Some ''BV2''\<rparr>]"
    using search_loop_empty_page [where cfg = sample_config and net = sample_network
        and kw = kw and pk = 5
        and results = "[\<lparr>result_bvid = Some ''BV1''\<rparr>, \<lparr>result_bvid = Some ''BV2''\<rparr>]"
        and page = "Suc (Suc 0)", OF _ p2]
    by (simp add: search_items_def py_prefix_def)
  show ?thesis
    by (simp add: search_keyword_def step1 step2)
qed

theorem crawl_discovery_witness:
  "\<exists>st. fst (crawl_keywords sample_config sample_network 5 [''a'', ''b''] empty_schedule) = Inr st
     \<and> map task_bvid (sched_tasks st) = [''BV1'', ''BV2'']
     \<and> map task_ranking_index (sched_tasks st) = [1, 2]
     \<and> (\<forall>t\<in>set (sched_tasks st). task_keyword t = ''a'')"
proof -
  define found :: "string \<Rightarrow> search_result list"
    where "found = (\<lambda>kw. [\<lparr>result_bvid = Some ''BV1''\<rparr>, \<lparr>result_bvid = Some ''BV2''\<rparr>])"
  have h: "\<forall>kw\<in>set [''a'', ''b''].
      fst (search_keyword sample_config sample_network kw 5) = Inr (found kw)"
    by (simp add: sample_search_keyword found_def)
  have ds: "discoveries (map (\<lambda>kw. (kw, found kw)) [''a'', ''b'']) =
      [(''a'', \<lparr>result_bvid = Some ''BV1''\<rparr>), (''a'', \<lparr>result_bvid = Some ''BV2''\<rparr>),
       (''b'', \<lparr>result_bvid = Some ''BV1''\<rparr>), (''b'', \<lparr>result_bvid = Some ''BV2''\<rparr>)]"
    by (simp add: discoveries_def found_def)
  from crawl_discovery [OF h] obtain st where
    run: "fst (crawl_keywords sample_config sample_network 5 [''a'', ''b''] empty_schedule) = Inr st"
    and order: "map task_bvid (sched_tasks st)
        = rev (remdups (rev (discovered_bvids
            (discoveries (map (\<lambda>kw. (kw, found kw)) [''a'', ''b''])))))"
    and ranks: "map task_ranking_index (sched_tasks st) = map int [1..<Suc (length (sched_tasks st))]"
    and firsts: "\<forall>t\<in>set (sched_tasks st).
          task_bvid t \<noteq> [] \<and> result_bvid (task_item t) = Some (task_bvid t)
          \<and> first_with_bvid (task_bvid t) (discoveries (map (\<lambda>kw. (kw, found kw)) [''a'', ''b'']))
              = Some (task_keyword t, task_item t)"
    by blast
  have ids: "map task_bvid (sched_tasks st) = [''BV1'', ''BV2'']"
    unfolding order ds by (simp add: discovered_bvids_def true_bvid_def)
  then have len: "length (sched_tasks st) = 2"
    by (metis length_map length_Cons list.size(3) numeral_2_eq_2)
  have rk: "map task_ranking_index (sched_tasks st) = [1, 2]"
    unfolding ranks len by (simp add: upt_rec)
  have kws: "task_keyword t = ''a''" if "t \<in> set (sched_tasks st)" for t
  proof -
    from that have "task_bvid t \<in> set (map task_bvid (sched_tasks st))" by simp
    then have "task_bvid t = ''BV1'' \<or> task_bvid t = ''BV2''" unfolding ids by simp
    moreover from firsts that
    have "first_with_bvid (task_bvid t) (discoveries (map (\<lambda>kw. (kw, found kw)) [''a'', ''b'']))
              = Some (task_keyword t, task_item t)" by blast
    ultimately show ?thesis
      unfolding ds by (auto simp: first_with_bvid_def)
  qed
  from run ids rk kws show ?thesis by (intro exI [of _ st]) simp
qed

section \<open>The cache short-circuit\<close>

text \<open>
  C5. With caching enabled and a document stored at the bundle path of a true short id,
  the unit makes no request (its trace is empty), leaves the file system as it is and
  returns what \<open>load_bundle\<close> returns for that path: the bundle read from storage, or the
  exception that reading it raises.
\<close>

theorem cache_short_circuit:
  assumes "result_bvid search_item = Some bv" and "bv \<noteq> []" and "enable_cache cfg"
    and "fs (bundle_path (raw_dir paths) bv) = Some document"
  shows "collect_video_bundle cfg paths net fs search_item kw rank =
           (case load_bundle fs (bundle_path (raw_dir paths) bv) of
              Inl e \<Rightarrow> Inl e
            | Inr b \<Rightarrow> Inr (Some b), fs, [])
         \<and> snd (snd (bounded_collect_video_bundle cfg paths net fs search_item kw rank)) = []"
  using assms
  by (simp add: collect_video_bundle_def bounded_collect_video_bundle_def split: sum.splits)

theorem cache_short_circuit_witness:
  "collect_video_bundle sample_config \<lparr>raw_dir = ''data/raw''\<rparr> sample_network
     (snd (dump_bundle sample_bundle \<lparr>raw_dir = ''data/raw''\<rparr> Map.empty))
     \<lparr>result_bvid = Some ''BV1''\<rparr> ''LLM'' 1 =
   (Inr (Some sample_bundle),
    snd (dump_bundle sample_bundle \<lparr>raw_dir = ''data/raw''\<rparr> Map.empty), [])"
proof -
  have b: "bvid (video sample_bundle) = ''BV1''"
    by (simp add: sample_bundle_def)
  have stored: "snd (dump_bundle sample_bundle \<lparr>raw_dir = ''data/raw''\<rparr> Map.empty)
      (bundle_path (raw_dir \<lparr>raw_dir = ''data/raw''\<rparr>) ''BV1'') = Some (Doc (to_dict sample_bundle))"
    by (simp add: dump_bundle_def b Let_def)
  have loaded: "load_bundle (snd (dump_bundle sample_bundle \<lparr>raw_dir = ''data/raw''\<rparr> Map.empty))
      (bundle_path (raw_dir \<lparr>raw_dir = ''data/raw''\<rparr>) ''BV1'') = Inr sample_bundle"
    unfolding load_bundle_def stored
    by (simp add: from_dict_to_dict [OF valid_sample_bundle])
  from cache_short_circuit
    [of "\<lparr>result_bvid = Some ''BV1''\<rparr>" "''BV1''" sample_config
        "snd (dump_bundle sample_bundle \<lparr>raw_dir = ''data/raw''\<rparr> Map.empty)"
        "\<lparr>raw_dir = ''data/raw''\<rparr>" "Doc (to_dict sample_bundle)" sample_network "''LLM''" 1,
     OF _ _ _ stored]
  show ?thesis
    unfolding loaded by (simp add: sample_config_fields)
qed

section \<open>The concurrency ceiling\<close>

lemma pool_invariant:
  assumes "reachable cfg n s"
  shows "finite (in_flight s) \<and> sem_value s + card (in_flight s) = semaphore_limit cfg
         \<and> waiting s \<inter> in_flight s = {}"
  using assms
proof (induction rule: reachable.induct)
  case (start cfg n)
  show ?case by (simp add: initial_pool_def)
next
  case (step cfg n s s')
  from step.IH have fin: "finite (in_flight s)"
    and sum: "sem_value s + card (in_flight s) = semaphore_limit cfg"
    and disj: "waiting s \<inter> in_flight s = {}"
    by simp_all
  from step.hyps(2) show ?case
  proof (cases rule: pool_step.cases)
    case (acquire i)
    with disj have "i \<notin> in_flight s" by auto
    with acquire fin sum disj show ?thesis by auto
  next
    case (release i)
    with fin have "0 < card (in_flight s)" by (auto simp: card_gt_0_iff)
    with release fin sum disj show ?thesis by auto
  qed
qed

text \<open>
  C9. In every state that an execution of \<open>crawl\<close> can reach, however many units were
  scheduled, the units inside \<open>async with self._semaphore\<close> number at most
  \<open>max(1, concurrent_requests)\<close>. The semaphore is held for a whole unit, not for a
  single request.
\<close>

theorem concurrency_ceiling:
  assumes "reachable cfg n s"
  shows "card (in_flight s) \<le> nat (max 1 (concurrent_requests cfg))"
  using pool_invariant [OF assms] by (simp add: semaphore_limit_def)

theorem concurrency_ceiling_witness:
  "reachable sample_config 3
     \<lparr>sem_value = 1, waiting = {1, 2}, in_flight = {0}, completed = {}\<rparr>
   \<and> card (in_flight \<lparr>sem_value = 1, waiting = {1, 2}, in_flight = {0 :: nat},
                        completed = {}\<rparr>)
       \<le> nat (max 1 (concurrent_requests sample_config))"
proof -
  have init: "initial_pool sample_config 3
      = \<lparr>sem_value = 2, waiting = {0, 1, 2}, in_flight = {}, completed = {}\<rparr>"
    by (auto simp: initial_pool_def semaphore_limit_def sample_config_fields)
  have "pool_step (initial_pool sample_config 3)
      ((initial_pool sample_config 3)
         \<lparr>sem_value := sem_value (initial_pool sample_config 3) - 1,
          waiting := waiting (initial_pool sample_config 3) - {0},
          in_flight := insert 0 (in_flight (initial_pool sample_config 3))\<rparr>)"
    by (rule pool_step.acquire) (simp_all add: init)
  then have "pool_step (initial_pool sample_config 3)
      \<lparr>sem_value = 1, waiting = {1, 2}, in_flight = {0}, completed = {}\<rparr>"
    unfolding init by (simp add: insert_Diff_if)
  with reachable.start have r: "reachable sample_config 3
      \<lparr>sem_value = 1, waiting = {1, 2}, in_flight = {0}, completed = {}\<rparr>"
    by (rule reachable.step)
  from concurrency_ceiling [OF r] r show ?thesis by simp
qed

end
